theory Spec2Isabelle
  imports Main "HOL-Library.Sublist" "HOL-Library.AList"
begin

section \<open>JavaScript strings\<close>

text \<open>
  Strings are character lists.  Only the string methods the modelled sources call are
  embedded: \<^verbatim>\<open>indexOf\<close>, \<^verbatim>\<open>charAt\<close>, \<^verbatim>\<open>substr\<close> with one argument and
  \<^verbatim>\<open>Array.prototype.join\<close>.
\<close>

text \<open>\<^verbatim>\<open>s.indexOf(sub)\<close>: the least position at which \<open>sub\<close> occurs in \<open>s\<close>, or \<open>-1\<close>.\<close>

fun indexOf :: "string \<Rightarrow> string \<Rightarrow> int" where
  "indexOf [] sub = (if sub = [] then 0 else - 1)"
| "indexOf (c # cs) sub =
     (if prefix sub (c # cs) then 0
      else (let r = indexOf cs sub in if r < 0 then - 1 else r + 1))"

text \<open>\<^verbatim>\<open>s.charAt(i)\<close>: the one-character string at \<open>i\<close>, the empty string out of range.\<close>

definition charAt :: "string \<Rightarrow> nat \<Rightarrow> string" where
  "charAt s i = (if i < length s then [s ! i] else [])"

text \<open>\<^verbatim>\<open>s.substr(n)\<close> for a non-negative \<open>n\<close>.\<close>

definition substr :: "string \<Rightarrow> nat \<Rightarrow> string" where
  "substr s n = drop n s"

text \<open>\<^verbatim>\<open>xs.join(sep)\<close>.\<close>

fun join :: "string list \<Rightarrow> string \<Rightarrow> string" where
  "join [] sep = []"
| "join [x] sep = x"
| "join (x # y # ys) sep = x @ sep @ join (y # ys) sep"

text \<open>A string is truthy when it is not empty.\<close>

definition truthy_str :: "string \<Rightarrow> bool" where
  "truthy_str s = (s \<noteq> [])"

section \<open>Link/utils/toUrlAndAction.js\<close>

subsection \<open>findBasename and stripBasename\<close>

text \<open>
  \<^verbatim>\<open>const findBasename = (path, bns = []) => bns.find(bn => path.indexOf(bn) === 0)\<close>

  \<^verbatim>\<open>Array.prototype.find\<close> returns the first element satisfying the predicate, or
  \<^verbatim>\<open>undefined\<close> (here \<open>None\<close>).
\<close>

definition findBasename :: "string \<Rightarrow> string list \<Rightarrow> string option" where
  "findBasename path bns = find (\<lambda>bn. indexOf path bn = 0) bns"

text \<open>
  \<^verbatim>\<open>const stripBasename = (path, bn) => path.indexOf(bn) === 0 ? path.substr(bn.length) : path\<close>
\<close>

definition stripBasename :: "string \<Rightarrow> string \<Rightarrow> string" where
  "stripBasename path bn = (if indexOf path bn = 0 then substr path (length bn) else path)"

subsection \<open>toUrlAndAction\<close>

text \<open>
  Errors are values.  \<open>TypeError\<close> is the engine's own error (a property read on
  \<^verbatim>\<open>undefined\<close>, a property written on a primitive in strict mode); \<open>Thrown\<close> carries
  the name of an error thrown by a collaborator that is passed in (the URL generator, the
  action parser, a custom formatter, a click handler), such as \<open>''ParamMismatch''\<close>.
\<close>

datatype error = TypeError | Thrown string

text \<open>
  The \<^verbatim>\<open>to\<close> argument: \<^verbatim>\<open>?(string | Array<string> | Object)\<close>.  An object is an action;
  the only field the function reads from it is \<^verbatim>\<open>basename\<close> (\<open>None\<close> when
  \<^verbatim>\<open>undefined\<close>), the rest is carried along as \<open>payload\<close> (\<open>None\<close> for an object
  with no other property, as \<^verbatim>\<open>{ ...undefined, basename }\<close> builds).
\<close>

record 'p action =
  payload :: "'p option"
  basename :: "string option"

datatype 'p to = ToUndefined | ToNull | ToString string | ToArray "string list"
  | ToObject "'p action"

text \<open>
  The collaborators imported from \<^verbatim>\<open>../../utils\<close> and \<^verbatim>\<open>resolve-pathname\<close> are not
  part of these sources and are parameters: \<open>actionToUrl\<close> (may throw), \<open>toAction\<close>
  (may throw) and \<open>resolvePathname\<close>.  \<open>basenames\<close> is \<^verbatim>\<open>options.basenames\<close>
  (\<open>None\<close> when \<^verbatim>\<open>undefined\<close>) and \<open>development\<close> says whether
  \<^verbatim>\<open>process.env.NODE_ENV === 'development'\<close>.
\<close>

record 'p link_api =
  actionToUrl :: "'p action \<Rightarrow> error + string"
  toAction :: "string \<Rightarrow> error + 'p action"
  resolvePathname :: "string \<Rightarrow> string \<Rightarrow> string"
  basenames :: "string list option"
  development :: bool

text \<open>
  Lines 42--44: the warning written to the console in development mode when no path could be
  created from the action.
\<close>

definition fallbackWarnings :: "'p link_api \<Rightarrow> string list" where
  "fallbackWarnings api =
     (if development api then [''[rudy/Link] could not create path from action''] else [])"

text \<open>
  Lines 19--48: the first value of \<open>url\<close>, the action, the basename and the warnings
  written to the console.  The \<^verbatim>\<open>try\<close> block is left at the first statement that
  throws: \<^verbatim>\<open>actionToUrl\<close> itself, or the read of \<^verbatim>\<open>action.basename\<close> when the
  action is \<^verbatim>\<open>null\<close>; \<open>basename\<close> then keeps the argument's value.
\<close>

record 'p resolved =
  r_url :: string
  r_action :: "'p action option"
  r_basename :: string
  r_warnings :: "string list"

definition resolveTo :: "'p link_api \<Rightarrow> 'p to \<Rightarrow> string \<Rightarrow> error + 'p resolved" where
  "resolveTo api t bn =
     (case t of
        ToUndefined \<Rightarrow> Inr \<lparr>r_url = ''#'', r_action = None, r_basename = bn, r_warnings = []\<rparr>
      | ToString s \<Rightarrow>
          Inr \<lparr>r_url = (if truthy_str s then s else ''#''), r_action = None, r_basename = bn,
               r_warnings = []\<rparr>
      | ToArray xs \<Rightarrow>
          (case xs of
             [] \<Rightarrow> Inl TypeError
           | x # rest \<Rightarrow>
               if charAt x 0 = ''/''
               then Inr \<lparr>r_url = ''/'' @ join rest ''/'', r_action = None, r_basename = x,
                         r_warnings = []\<rparr>
               else Inr \<lparr>r_url = ''/'' @ join xs ''/'', r_action = None, r_basename = bn,
                         r_warnings = []\<rparr>)
      | ToNull \<Rightarrow>
          Inr \<lparr>r_url = ''#'', r_action = None, r_basename = bn,
               r_warnings = fallbackWarnings api\<rparr>
      | ToObject a \<Rightarrow>
          (case actionToUrl api a of
             Inr u \<Rightarrow>
               Inr \<lparr>r_url = u, r_action = Some a,
                    r_basename = (case basename a of Some b \<Rightarrow> b | None \<Rightarrow> bn),
                    r_warnings = []\<rparr>
           | Inl e \<Rightarrow>
               Inr \<lparr>r_url = ''#'', r_action = Some a, r_basename = bn,
                    r_warnings = fallbackWarnings api\<rparr>))"

text \<open>
  Lines 50--55: \<^verbatim>\<open>const bn = basenames && findBasename(url, basenames)\<close>; the found
  basename replaces \<open>basename\<close> and is stripped from the URL when it is truthy.
\<close>

definition applyBasename :: "string list option \<Rightarrow> string \<Rightarrow> string \<Rightarrow> string \<times> string" where
  "applyBasename bns bn url =
     (case bns of
        None \<Rightarrow> (bn, url)
      | Some bs \<Rightarrow>
          (case findBasename url bs of
             None \<Rightarrow> (bn, url)
           | Some b \<Rightarrow> if truthy_str b then (b, stripBasename url b) else (bn, url)))"

text \<open>Lines 57--62: a hash is appended to the current pathname, a relative URL is resolved.\<close>

definition absoluteUrl :: "'p link_api \<Rightarrow> string \<Rightarrow> string \<Rightarrow> string" where
  "absoluteUrl api url currentPathname =
     (if charAt url 0 = ''#'' then currentPathname @ url
      else if charAt url 0 \<noteq> ''/'' then resolvePathname api url currentPathname
      else url)"

record 'p url_and_action =
  fullUrl :: string
  action :: "'p action option"
  warnings :: "string list"

text \<open>Lines 71--73: \<^verbatim>\<open>if (basename) action = { ...action, basename }\<close>.\<close>

definition withBasename :: "string \<Rightarrow> 'p action option \<Rightarrow> 'p action option" where
  "withBasename bn a =
     (if truthy_str bn
      then (case a of
              None \<Rightarrow> Some \<lparr>payload = None, basename = Some bn\<rparr>
            | Some a' \<Rightarrow> Some (a'\<lparr>basename := Some bn\<rparr>))
      else a)"

text \<open>
  The default export.  The \<^verbatim>\<open>basename\<close> parameter is a string (\<^verbatim>\<open>''\<close> by default).
  With no action and a URL that is not external the URL is parsed by \<open>toAction\<close>,
  whose error is not caught.
\<close>

definition toUrlAndAction ::
  "'p link_api \<Rightarrow> 'p to \<Rightarrow> string \<Rightarrow> string \<Rightarrow> error + 'p url_and_action" where
  "toUrlAndAction api t bn0 currentPathname =
     (case resolveTo api t bn0 of
        Inl e \<Rightarrow> Inl e
      | Inr r \<Rightarrow>
          (let (bn, url1) = applyBasename (basenames api) (r_basename r) (r_url r);
               url = absoluteUrl api url1 currentPathname;
               isExternal = (indexOf url ''http'' = 0);
               full = (if isExternal then url else bn @ url)
           in if r_action r = None \<and> \<not> isExternal
              then (case toAction api url of
                      Inl e \<Rightarrow> Inl e
                    | Inr a \<Rightarrow>
                        Inr \<lparr>fullUrl = full, action = withBasename bn (Some a),
                             warnings = r_warnings r\<rparr>)
              else Inr \<lparr>fullUrl = full, action = withBasename bn (r_action r),
                        warnings = r_warnings r\<rparr>))"

section \<open>Link/utils/handlePress.js\<close>

text \<open>The fields of the click event that the handler reads.\<close>

record event =
  defaultPrevented :: bool
  metaKey :: bool
  altKey :: bool
  ctrlKey :: bool
  shiftKey :: bool
  button :: int
  hasPreventDefault :: bool

text \<open>\<^verbatim>\<open>const isModified = (e) => !!(e.metaKey || e.altKey || e.ctrlKey || e.shiftKey)\<close>\<close>

definition isModified :: "event \<Rightarrow> bool" where
  "isModified e = (metaKey e \<or> altKey e \<or> ctrlKey e \<or> shiftKey e)"

text \<open>
  What a press does to the world: whether \<^verbatim>\<open>e.preventDefault()\<close> was called, the action
  handed to \<^verbatim>\<open>dispatch\<close> (if any), whether \<^verbatim>\<open>history.saveHistory\<close> was called and
  the value assigned to \<^verbatim>\<open>window.location.href\<close> (if any).
\<close>

record 'a press =
  preventedDefault :: bool
  dispatched :: "'a option"
  savedHistory :: bool
  href :: "string option"

text \<open>
  \<open>onClick\<close> is \<open>None\<close> when it is \<^verbatim>\<open>false\<close>, \<^verbatim>\<open>null\<close> or \<^verbatim>\<open>undefined\<close>; a
  handler returns \<^verbatim>\<open>?boolean\<close> or throws.  \<open>target\<close> is \<^verbatim>\<open>?string\<close>.  \<open>redirect\<close>
  is the action creator imported from \<^verbatim>\<open>../../actions\<close>.
\<close>

definition truthy_opt :: "string option \<Rightarrow> bool" where
  "truthy_opt t = (case t of None \<Rightarrow> False | Some s \<Rightarrow> truthy_str s)"

definition handlePress ::
  "('a \<Rightarrow> 'a) \<Rightarrow> 'a option \<Rightarrow> bool \<Rightarrow> (event \<Rightarrow> error + bool option) option \<Rightarrow>
   string option \<Rightarrow> bool \<Rightarrow> string \<Rightarrow> int \<Rightarrow> event \<Rightarrow> error + 'a press" where
  "handlePress redirect act shouldDispatch onClick target isRedirect full historyIndex e =
     (let prevented = defaultPrevented e;
          notModified = (\<not> isModified e);
          clicked = (case onClick of
                       None \<Rightarrow> Inr True
                     | Some h \<Rightarrow> (case h e of Inl err \<Rightarrow> Inl err | Inr r \<Rightarrow> Inr (r \<noteq> Some False)))
      in (case clicked of
            Inl err \<Rightarrow> Inl err
          | Inr shouldGo \<Rightarrow>
              (let pd = (\<not> truthy_opt target \<and> hasPreventDefault e \<and> notModified)
               in if act \<noteq> None \<and> shouldGo \<and> shouldDispatch \<and> \<not> truthy_opt target \<and>
                     \<not> prevented \<and> notModified \<and> button e = 0
                  then Inr \<lparr>preventedDefault = pd,
                            dispatched = map_option (\<lambda>a. if isRedirect then redirect a else a) act,
                            savedHistory = False, href = None\<rparr>
                  else if act = None \<and> \<not> truthy_opt target \<and> indexOf full ''http'' = 0
                  then Inr \<lparr>preventedDefault = pd, dispatched = None,
                            savedHistory = (historyIndex = 0), href = Some full\<rparr>
                  else Inr \<lparr>preventedDefault = pd, dispatched = None, savedHistory = False,
                            href = None\<rparr>)))"

section \<open>middleware/pathlessRoute.js\<close>

text \<open>
  A middleware is \<^verbatim>\<open>(req, next) => Promise\<close>.  The promise chain of one request runs
  sequentially, so a middleware is a function from the request and the rest of the chain to
  an outcome: the value the promise resolves with (or the error it rejects with) and the
  request as the chain left it (the request object is mutated in place).

  A resolved value is \<^verbatim>\<open>undefined\<close>, \<^verbatim>\<open>false\<close> or an action; only an action is truthy.
  The field \<open>trace\<close> of a request is not a field of the source's request: it records, in
  order, the callbacks invoked and the commits made while the request is processed.
\<close>

datatype 'a resolved_value = VUndefined | VFalse | VAction 'a

datatype effect = Called string | Committed

text \<open>
  What the invocation of a route callback amounts to for the chain: the chain goes on
  (\<open>Continue\<close>), it is short-circuited with a value (\<open>Stop VFalse\<close> for a callback that
  blocks by returning \<^verbatim>\<open>false\<close>, \<open>Stop (VAction a)\<close> for a replacement action), or the
  callback throws.
\<close>

datatype 'a cb_outcome = Continue | Stop "'a resolved_value" | Throw string

text \<open>
  A route record, as far as the middleware reads it: \<^verbatim>\<open>route.path\<close>, \<^verbatim>\<open>route.dispatch\<close>
  (\<open>None\<close> when undefined) and, for a property name, the function stored under it
  (\<open>None\<close> when \<^verbatim>\<open>typeof route[name] !== 'function'\<close>).  A callback sees the request's
  current action.
\<close>

record 'a route =
  path :: "string option"
  dispatch :: "bool option"
  callbacks :: "string \<Rightarrow> ('a \<Rightarrow> 'a cb_outcome) option"

record 'a req =
  route :: "'a route option"
  req_action :: 'a
  commitDispatch :: "'a \<Rightarrow> 'a"
  trace :: "effect list"

type_synonym 'a outcome = "(error + 'a resolved_value) \<times> 'a req"

type_synonym 'a middleware = "'a req \<Rightarrow> ('a req \<Rightarrow> 'a outcome) \<Rightarrow> 'a outcome"

definition truthy_value :: "'a resolved_value \<Rightarrow> bool" where
  "truthy_value v = (case v of VAction _ \<Rightarrow> True | _ \<Rightarrow> False)"

text \<open>
  Lines 4--6: \<^verbatim>\<open>names[0] = names[0] || 'thunk'\<close> and so on.  \<open>names\<close> is the rest
  parameter, an array of strings of any length; a missing or empty entry is falsy.  Names
  beyond the third are kept as they are.
\<close>

definition nameOr :: "string list \<Rightarrow> nat \<Rightarrow> string \<Rightarrow> string" where
  "nameOr names i d = (if i < length names \<and> truthy_str (names ! i) then names ! i else d)"

definition defaultNames :: "string list \<Rightarrow> string list" where
  "defaultNames names =
     [nameOr names 0 ''thunk'', nameOr names 1 ''beforeEnter'', nameOr names 2 ''onComplete'']
     @ drop 3 names"

text \<open>Line 8: \<^verbatim>\<open>const callbacks = [names[1], names[0], names[2]]\<close>.\<close>

definition callbackNames :: "string list \<Rightarrow> string list" where
  "callbackNames names =
     [nameOr names 1 ''beforeEnter'', nameOr names 0 ''thunk'', nameOr names 2 ''onComplete'']"

text \<open>
  Lines 14--20, the middleware spliced in at position 1:
  \<^verbatim>\<open>if (req.route.dispatch !== false) req.action = req.commitDispatch(req.action); return next()\<close>.
\<close>

definition commitMiddleware :: "'a middleware" where
  "commitMiddleware rq next =
     (case route rq of
        None \<Rightarrow> (Inl TypeError, rq)
      | Some r \<Rightarrow>
          if dispatch r \<noteq> Some False
          then next (rq\<lparr>req_action := commitDispatch rq (req_action rq),
                        trace := trace rq @ [Committed]\<rparr>)
          else next rq)"

text \<open>
  Lines 10--22.  \<^verbatim>\<open>call\<close> (imported from \<^verbatim>\<open>./index\<close>) and \<^verbatim>\<open>api.options.compose\<close> are
  not part of these sources and are the parameters \<open>mkCall\<close> and \<open>composeFn\<close> here.
\<close>

definition pipeline ::
  "(string \<Rightarrow> 'a middleware) \<Rightarrow> ('a middleware list \<Rightarrow> 'a req \<Rightarrow> 'a outcome) \<Rightarrow>
   string list \<Rightarrow> 'a req \<Rightarrow> 'a outcome" where
  "pipeline mkCall composeFn names =
     (let middlewares = map mkCall (callbackNames names)
      in composeFn (take 1 middlewares @ [commitMiddleware] @ drop 1 middlewares))"

text \<open>
  \<^verbatim>\<open>const hasCallback = (route, names) => names.find(name => typeof route[name] === 'function')\<close>
\<close>

definition hasCallback :: "'a route \<Rightarrow> string list \<Rightarrow> string option" where
  "hasCallback r names = find (\<lambda>name. callbacks r name \<noteq> None) names"

text \<open>
  Lines 30--39, the middleware returned.  \<^verbatim>\<open>route && !route.path\<close> holds for a route whose
  path is undefined or the empty string.  \<^verbatim>\<open>res || req.action\<close> reads the action of the
  request as the pipeline left it.
\<close>

definition pathlessRoute ::
  "(string \<Rightarrow> 'a middleware) \<Rightarrow> ('a middleware list \<Rightarrow> 'a req \<Rightarrow> 'a outcome) \<Rightarrow>
   string list \<Rightarrow> 'a middleware" where
  "pathlessRoute mkCall composeFn names rq next =
     (case route rq of
        None \<Rightarrow> next rq
      | Some r \<Rightarrow>
          if \<not> truthy_opt (path r) \<and> truthy_opt (hasCallback r (defaultNames names))
          then (case pipeline mkCall composeFn names rq of
                  (Inl e, rq') \<Rightarrow> (Inl e, rq')
                | (Inr res, rq') \<Rightarrow>
                    (Inr (if truthy_value res then res else VAction (req_action rq')), rq'))
          else next rq)"

text \<open>
  Modelled from the spec: \<^verbatim>\<open>compose\<close>, the pipeline engine's composer, which is not part of
  these sources.  The spec (4.4): middlewares run strictly in registration order; \<^verbatim>\<open>next()\<close>
  invokes the remainder of the chain and returns its eventual result; a middleware that does
  not call \<^verbatim>\<open>next()\<close> short-circuits the forward pass; an error thrown by a middleware
  propagates, the engine does not catch and continue.  Past the last middleware the chain
  resolves with \<^verbatim>\<open>undefined\<close>.
\<close>

fun compose :: "'a middleware list \<Rightarrow> 'a req \<Rightarrow> 'a outcome" where
  "compose [] rq = (Inr VUndefined, rq)"
| "compose (m # ms) rq = m rq (compose ms)"

text \<open>
  Modelled from the spec: \<^verbatim>\<open>call(name)\<close>, the middleware that runs the route callback
  stored under \<open>name\<close>, which is not part of these sources.  The spec (3, 4.4, 9): a
  callback slot is optional and is called if present; a callback that returns \<^verbatim>\<open>false\<close>
  halts forward progress, one that resolves with a replacement action short-circuits the
  chain with it, a thrown error rejects the dispatch; otherwise the chain proceeds and the
  middleware resolves with the result of the rest of the chain.
\<close>

definition call :: "string \<Rightarrow> 'a middleware" where
  "call name rq next =
     (case route rq of
        None \<Rightarrow> next rq
      | Some r \<Rightarrow>
          (case callbacks r name of
             None \<Rightarrow> next rq
           | Some cb \<Rightarrow>
               (let rq' = rq\<lparr>trace := trace rq @ [Called name]\<rparr>
                in (case cb (req_action rq) of
                      Continue \<Rightarrow> next rq'
                    | Stop v \<Rightarrow> (Inr v, rq')
                    | Throw e \<Rightarrow> (Inl (Thrown e), rq')))))"

text \<open>
  Vocabulary for statements about a run of the pipeline: the effect of the \<open>call\<close>
  middleware for a name (the callback is invoked when the route has one), whether the chain
  goes on after it, and the number of commits in a trace.
\<close>

definition calls :: "'a route \<Rightarrow> string \<Rightarrow> effect list" where
  "calls r name = (if callbacks r name = None then [] else [Called name])"

definition proceeds :: "'a route \<Rightarrow> string \<Rightarrow> 'a \<Rightarrow> bool" where
  "proceeds r name a = (case callbacks r name of None \<Rightarrow> True | Some cb \<Rightarrow> cb a = Continue)"

definition commits :: "effect list \<Rightarrow> nat" where
  "commits t = length (filter (\<lambda>e. e = Committed) t)"

section \<open>utils/formatRoutes.js\<close>

text \<open>
  The registry builder (the second module of \<^verbatim>\<open>src/src/Link/utils/toUrlAndAction.js\<close>,
  lines 86--139) mutates objects: it writes \<^verbatim>\<open>route.type\<close> into the route objects it is
  given and, when adding routes, into the input map itself.  Objects therefore live in a
  store and are referred to by address; two entries of a map may hold the same object.
\<close>

subsection \<open>Values, objects and the store\<close>

type_synonym addr = nat

datatype jsval = JUndefined | JBool bool | JStr string | JRef addr

text \<open>
  An object is its own enumerable string-keyed properties, in insertion order, and whether
  it is callable (\<^verbatim>\<open>typeof x === 'function'\<close>).  The store is the list of all objects; an
  address is a position in it, and a new object is appended.
\<close>

record cell =
  callable :: bool
  props :: "(string \<times> jsval) list"

type_synonym store = "cell list"

definition truthy :: "jsval \<Rightarrow> bool" where
  "truthy v = (case v of JUndefined \<Rightarrow> False | JBool b \<Rightarrow> b | JStr s \<Rightarrow> s \<noteq> [] | JRef _ \<Rightarrow> True)"

definition isFunction :: "store \<Rightarrow> jsval \<Rightarrow> bool" where
  "isFunction s v = (case v of JRef a \<Rightarrow> a < length s \<and> callable (s ! a) | _ \<Rightarrow> False)"

definition propsOf :: "store \<Rightarrow> addr \<Rightarrow> (string \<times> jsval) list" where
  "propsOf s a = (if a < length s then props (s ! a) else [])"

text \<open>\<^verbatim>\<open>obj[k]\<close>: the value of an own property, \<^verbatim>\<open>undefined\<close> when there is none.\<close>

definition getProp :: "store \<Rightarrow> addr \<Rightarrow> string \<Rightarrow> jsval" where
  "getProp s a k = (case map_of (propsOf s a) k of None \<Rightarrow> JUndefined | Some v \<Rightarrow> v)"

text \<open>
  \<^verbatim>\<open>obj[k] = v\<close>: an existing property keeps its place, a new one is added at the end.
\<close>

definition setProp :: "store \<Rightarrow> addr \<Rightarrow> string \<Rightarrow> jsval \<Rightarrow> store" where
  "setProp s a k v =
     (if a < length s then s[a := (s ! a)\<lparr>props := AList.update k v (props (s ! a))\<rparr>] else s)"

text \<open>An object literal: a new object that is not callable.\<close>

definition alloc :: "store \<Rightarrow> (string \<times> jsval) list \<Rightarrow> addr \<times> store" where
  "alloc s ps = (length s, s @ [\<lparr>callable = False, props = ps\<rparr>])"

text \<open>
  The order in which \<^verbatim>\<open>Object.keys\<close> and \<^verbatim>\<open>Object.assign\<close> visit the properties of an
  object: first the keys that are array indices (canonical decimal numerals below
  \<open>2\<^sup>3\<^sup>2 - 1\<close>) in ascending numeric order, then all other keys in insertion order.
\<close>

definition isDigit :: "char \<Rightarrow> bool" where
  "isDigit c = (c \<in> set ''0123456789'')"

definition decimal :: "string \<Rightarrow> int" where
  "decimal s = foldl (\<lambda>n c. 10 * n + (of_char c - 48)) 0 s"

definition isArrayIndex :: "string \<Rightarrow> bool" where
  "isArrayIndex s =
     (s \<noteq> [] \<and> list_all isDigit s \<and> (s = ''0'' \<or> hd s \<noteq> CHR ''0'') \<and> decimal s < 4294967295)"

definition ownKeys :: "(string \<times> jsval) list \<Rightarrow> string list" where
  "ownKeys ps =
     sort_key decimal (filter isArrayIndex (map fst ps))
     @ filter (\<lambda>k. \<not> isArrayIndex k) (map fst ps)"

text \<open>\<^verbatim>\<open>Object.assign(target, source)\<close>.\<close>

definition objectAssign :: "store \<Rightarrow> addr \<Rightarrow> addr \<Rightarrow> store" where
  "objectAssign s target source =
     fold (\<lambda>k s'. setProp s' target k (getProp s' source k)) (ownKeys (propsOf s source)) s"

subsection \<open>formatRoute\<close>

text \<open>
  A custom formatter is any function of the route, the type, the routes map and
  \<^verbatim>\<open>isAddRoutes\<close>; it may throw, allocate and mutate.
\<close>

type_synonym formatter =
  "jsval \<Rightarrow> string \<Rightarrow> addr \<Rightarrow> bool \<Rightarrow> store \<Rightarrow> error + jsval \<times> store"

text \<open>
  Lines 127--139.  A string becomes the new object \<^verbatim>\<open>{ path: r }\<close> first; a formatter, when
  there is one, is handed that route and its result is returned; without a formatter a
  function becomes the new object \<^verbatim>\<open>{ thunk: route }\<close> and anything else is returned as
  it is.
\<close>

definition formatRoute ::
  "formatter option \<Rightarrow> jsval \<Rightarrow> string \<Rightarrow> addr \<Rightarrow> bool \<Rightarrow> store \<Rightarrow> error + jsval \<times> store" where
  "formatRoute fm r type routes isAddRoutes s =
     (let (rt, s1) = (case r of
                        JStr p \<Rightarrow> (let (a, s') = alloc s [(''path'', JStr p)] in (JRef a, s'))
                      | _ \<Rightarrow> (r, s))
      in (case fm of
            Some f \<Rightarrow> f rt type routes isAddRoutes s1
          | None \<Rightarrow>
              if isFunction s1 rt
              then (let (a, s2) = alloc s1 [(''thunk'', rt)] in Inr (JRef a, s2))
              else Inr (rt, s1)))"

subsection \<open>The default export\<close>

text \<open>
  \<^verbatim>\<open>route.type = type\<close> (line 119).  The module is strict-mode code: writing a property of
  \<^verbatim>\<open>undefined\<close> or of a primitive throws a \<^verbatim>\<open>TypeError\<close>.
\<close>

definition setType :: "store \<Rightarrow> jsval \<Rightarrow> string \<Rightarrow> error + store" where
  "setType s rt type =
     (case rt of JRef a \<Rightarrow> Inr (setProp s a ''type'' (JStr type)) | _ \<Rightarrow> Inl TypeError)"

text \<open>Lines 117--122: the body of \<^verbatim>\<open>types.forEach\<close>, and the loop.\<close>

definition formatStep ::
  "formatter option \<Rightarrow> addr \<Rightarrow> bool \<Rightarrow> string \<Rightarrow> store \<Rightarrow> error + store" where
  "formatStep fm routes isAddRoutes type s =
     (case formatRoute fm (getProp s routes type) type routes isAddRoutes s of
        Inl e \<Rightarrow> Inl e
      | Inr (rt, s1) \<Rightarrow>
          (case setType s1 rt type of
             Inl e \<Rightarrow> Inl e
           | Inr s2 \<Rightarrow> Inr (setProp s2 routes type rt)))"

fun formatAll ::
  "formatter option \<Rightarrow> addr \<Rightarrow> bool \<Rightarrow> string list \<Rightarrow> store \<Rightarrow> error + store" where
  "formatAll fm routes isAddRoutes [] s = Inr s"
| "formatAll fm routes isAddRoutes (t # ts) s =
     (case formatStep fm routes isAddRoutes t s of
        Inl e \<Rightarrow> Inl e
      | Inr s' \<Rightarrow> formatAll fm routes isAddRoutes ts s')"

text \<open>
  The constants imported from \<^verbatim>\<open>../types\<close> and the thunks imported from
  \<^verbatim>\<open>../pathlessRoutes\<close> are not part of these sources; they are parameters.
\<close>

record builtins =
  ADD_ROUTES :: string
  CHANGE_BASENAME :: string
  CLEAR_CACHE :: string
  CONFIRM :: string
  CALL_HISTORY :: string
  addRoutes :: jsval
  changeBasename :: jsval
  clearCache :: jsval
  confirm :: jsval
  callHistory :: jsval

definition maintenanceTypes :: "builtins \<Rightarrow> string list" where
  "maintenanceTypes T = [ADD_ROUTES T, CHANGE_BASENAME T, CLEAR_CACHE T, CONFIRM T, CALL_HISTORY T]"

text \<open>
  The object literals of lines 108--112, each with the type it is the default of (the
  statements themselves are in \<open>initialRoutes\<close> below).
\<close>

definition maintenanceRoutes :: "builtins \<Rightarrow> (string \<times> (string \<times> jsval) list) list" where
  "maintenanceRoutes T =
     [(ADD_ROUTES T, [(''thunk'', addRoutes T), (''dispatch'', JBool False)]),
      (CHANGE_BASENAME T, [(''thunk'', changeBasename T), (''dispatch'', JBool False)]),
      (CLEAR_CACHE T, [(''thunk'', clearCache T)]),
      (CONFIRM T, [(''thunk'', confirm T), (''dispatch'', JBool False)]),
      (CALL_HISTORY T, [(''thunk'', callHistory T), (''dispatch'', JBool False)])]"

text \<open>\<^verbatim>\<open>v || { ... }\<close>: the object literal is evaluated only when \<open>v\<close> is falsy.\<close>

definition orDefault :: "store \<Rightarrow> jsval \<Rightarrow> (string \<times> jsval) list \<Rightarrow> jsval \<times> store" where
  "orDefault s v ps = (if truthy v then (v, s) else (let (a, s') = alloc s ps in (JRef a, s')))"

text \<open>\<^verbatim>\<open>routes[K] = input[K] || { ... }\<close> (lines 105 and 108--112).\<close>

definition setDefault ::
  "addr \<Rightarrow> addr \<Rightarrow> string \<Rightarrow> (string \<times> jsval) list \<Rightarrow> store \<Rightarrow> store" where
  "setDefault routes input k ps s =
     (let (v, s') = orDefault s (getProp s input k) ps in setProp s' routes k v)"

text \<open>Lines 104--113: what is done before the loop when \<^verbatim>\<open>isAddRoutes\<close> is false.\<close>

definition initialRoutes :: "builtins \<Rightarrow> addr \<Rightarrow> store \<Rightarrow> addr \<times> store" where
  "initialRoutes T input s =
     (let (routes, s0) = alloc s [];
          s1 = setDefault routes input ''NOT_FOUND'' [(''path'', JStr ''/not-found'')] s0;
          s2 = objectAssign s1 routes input;
          s3 = setDefault routes input (ADD_ROUTES T)
                 [(''thunk'', addRoutes T), (''dispatch'', JBool False)] s2;
          s4 = setDefault routes input (CHANGE_BASENAME T)
                 [(''thunk'', changeBasename T), (''dispatch'', JBool False)] s3;
          s5 = setDefault routes input (CLEAR_CACHE T) [(''thunk'', clearCache T)] s4;
          s6 = setDefault routes input (CONFIRM T)
                 [(''thunk'', confirm T), (''dispatch'', JBool False)] s5;
          s7 = setDefault routes input (CALL_HISTORY T)
                 [(''thunk'', callHistory T), (''dispatch'', JBool False)] s6
      in (routes, s7))"

text \<open>
  Lines 97--125.  The result is the address of the routes map and the store; when adding
  routes the map is the input object itself.
\<close>

definition formatRoutes ::
  "builtins \<Rightarrow> formatter option \<Rightarrow> addr \<Rightarrow> bool \<Rightarrow> store \<Rightarrow> error + addr \<times> store" where
  "formatRoutes T fm input isAddRoutes s =
     (let (routes, s') = (if isAddRoutes then (input, s) else initialRoutes T input s);
          types = ownKeys (propsOf s' routes)
      in (case formatAll fm routes isAddRoutes types s' of
            Inl e \<Rightarrow> Inl e
          | Inr s'' \<Rightarrow> Inr (routes, s'')))"

text \<open>
  The registry a store holds at an address, in iteration order, and the \<^verbatim>\<open>type\<close> field of
  a record.
\<close>

definition registry :: "store \<Rightarrow> addr \<Rightarrow> (string \<times> jsval) list" where
  "registry s a = map (\<lambda>k. (k, getProp s a k)) (ownKeys (propsOf s a))"

definition typeField :: "store \<Rightarrow> jsval \<Rightarrow> jsval" where
  "typeField s v = (case v of JRef a \<Rightarrow> getProp s a ''type'' | _ \<Rightarrow> JUndefined)"

text \<open>
  Well-formed input.  An entry of a routes map is a string, a function or an object
  (the type \<^verbatim>\<open>RouteInput\<close>), and not the map itself; the keys of an object are distinct.
  \<open>unshared\<close> says that no two entries of the map hold the same (non-callable) object.
\<close>

definition routeValue :: "store \<Rightarrow> addr \<Rightarrow> jsval \<Rightarrow> bool" where
  "routeValue s routes v =
     (case v of JStr p \<Rightarrow> True | JRef a \<Rightarrow> a < length s \<and> a \<noteq> routes | _ \<Rightarrow> False)"

definition wellFormedInput :: "store \<Rightarrow> addr \<Rightarrow> bool" where
  "wellFormedInput s input =
     (input < length s \<and> distinct (map fst (propsOf s input))
      \<and> list_all (\<lambda>kv. routeValue s input (snd kv)) (propsOf s input))"

fun objectRefs :: "store \<Rightarrow> (string \<times> jsval) list \<Rightarrow> addr list" where
  "objectRefs s [] = []"
| "objectRefs s ((k, v) # ps) =
     (case v of
        JRef a \<Rightarrow> if isFunction s v then objectRefs s ps else a # objectRefs s ps
      | _ \<Rightarrow> objectRefs s ps)"

definition unshared :: "store \<Rightarrow> addr \<Rightarrow> bool" where
  "unshared s input = distinct (objectRefs s (propsOf s input))"

text \<open>
  The invariant of lines 104--113, used in the proofs: \<open>s0\<close> is the store the build
  started from and the routes map sits right behind it.  The old objects are untouched, the
  objects created since are not callable, and every entry of the routes map is either the
  entry the input has under the same key or a new object that no other entry holds.
\<close>

definition initialInv :: "store \<Rightarrow> addr \<Rightarrow> store \<Rightarrow> bool" where
  "initialInv s0 input s =
     (input < length s0 \<and> length s0 < length s \<and> take (length s0) s = s0
      \<and> (\<forall>b. length s0 < b \<and> b < length s \<longrightarrow> \<not> callable (s ! b))
      \<and> distinct (map fst (propsOf s (length s0)))
      \<and> (\<forall>k\<in>fst ` set (propsOf s (length s0)).
            (k \<in> fst ` set (propsOf s0 input)
               \<and> getProp s (length s0) k = getProp s0 input k)
            \<or> (\<exists>b. getProp s (length s0) k = JRef b \<and> length s0 < b \<and> b < length s
                  \<and> (\<forall>k'. getProp s (length s0) k' = JRef b \<longrightarrow> k' = k))))"

text \<open>
  An instance of the parameters for the examples below: five distinct type constants, and
  the five thunks as the first five objects of the store.
\<close>

abbreviation exampleBuiltins :: builtins where
  "exampleBuiltins \<equiv>
     \<lparr>ADD_ROUTES = ''ADD_ROUTES'', CHANGE_BASENAME = ''CHANGE_BASENAME'',
      CLEAR_CACHE = ''CLEAR_CACHE'', CONFIRM = ''CONFIRM'', CALL_HISTORY = ''CALL_HISTORY'',
      addRoutes = JRef 0, changeBasename = JRef 1, clearCache = JRef 2, confirm = JRef 3,
      callHistory = JRef 4\<rparr>"

abbreviation exampleThunks :: store where
  "exampleThunks \<equiv>
     [\<lparr>callable = True, props = []\<rparr>, \<lparr>callable = True, props = []\<rparr>,
      \<lparr>callable = True, props = []\<rparr>, \<lparr>callable = True, props = []\<rparr>,
      \<lparr>callable = True, props = []\<rparr>]"

text \<open>
  A store for the examples: the thunks, a routes map at address 5 with a path string, a
  route object (address 6) and a function (address 7).
\<close>

abbreviation exampleStore :: store where
  "exampleStore \<equiv>
     exampleThunks @
     [\<lparr>callable = False,
       props = [(''HOME'', JStr ''/''), (''POST'', JRef 6), (''LOAD'', JRef 7)]\<rparr>,
      \<lparr>callable = False, props = [(''path'', JStr ''/post/:id'')]\<rparr>,
      \<lparr>callable = True, props = []\<rparr>]"

section \<open>Properties of the link helpers\<close>

subsection \<open>Strings\<close>

lemma indexOf_ge: "- 1 \<le> indexOf s sub"
  by (induction s) (auto simp: Let_def)

lemma indexOf_zero_iff: "indexOf s sub = 0 \<longleftrightarrow> prefix sub s"
proof (cases s)
  case Nil
  then show ?thesis by auto
next
  case (Cons c cs)
  have "- 1 \<le> indexOf cs sub" by (rule indexOf_ge)
  then show ?thesis using Cons by (auto simp: Let_def)
qed

subsection \<open>Basenames\<close>

lemma findBasename_Some_iff:
  "findBasename url bns = Some bn \<longleftrightarrow>
     (\<exists>i<length bns. bns ! i = bn \<and> prefix bn url \<and> (\<forall>j<i. \<not> prefix (bns ! j) url))"
  unfolding findBasename_def find_Some_iff indexOf_zero_iff by auto

lemma findBasename_None_iff:
  "findBasename url bns = None \<longleftrightarrow> (\<forall>b\<in>set bns. \<not> prefix b url)"
  unfolding findBasename_def find_None_iff indexOf_zero_iff by auto

lemma findBasename_mem: "findBasename url bns = Some b \<Longrightarrow> b \<in> set bns \<and> prefix b url"
  using findBasename_Some_iff[of url bns b] by auto

lemma stripBasename_prefix: "stripBasename (b @ u) b = u"
  by (simp add: stripBasename_def indexOf_zero_iff substr_def)

text \<open>
  Claim C2, as amended.  The basename that \<open>toUrlAndAction\<close> strips from the URL and
  applies is the \<^emph>\<open>first\<close> configured basename, in configuration order, that is a prefix
  of the URL: \<open>findBasename\<close> returns the element at the least index whose string is a
  prefix of the URL, and nothing when no configured basename is a prefix.  When the
  basename found is not empty it becomes the basename and is stripped from the front of
  the URL; when nothing is found, or the empty basename is found, basename and URL are
  left as they were.  No comparison of lengths takes place.
\<close>

theorem findBasename_first_match:
  "(findBasename url bns = Some bn \<longleftrightarrow>
     (\<exists>i<length bns. bns ! i = bn \<and> prefix bn url \<and> (\<forall>j<i. \<not> prefix (bns ! j) url)))
   \<and> (findBasename url bns = None \<longleftrightarrow> (\<forall>b\<in>set bns. \<not> prefix b url))
   \<and> (\<forall>b. findBasename url bns = Some b \<and> b \<noteq> [] \<longrightarrow>
         (\<exists>u. url = b @ u \<and> applyBasename (Some bns) bn0 url = (b, u)))
   \<and> (findBasename url bns = None \<or> findBasename url bns = Some [] \<longrightarrow>
         applyBasename (Some bns) bn0 url = (bn0, url))"
proof (intro conjI allI impI)
  show "findBasename url bns = Some bn \<longleftrightarrow>
     (\<exists>i<length bns. bns ! i = bn \<and> prefix bn url \<and> (\<forall>j<i. \<not> prefix (bns ! j) url))"
    by (rule findBasename_Some_iff)
  show "findBasename url bns = None \<longleftrightarrow> (\<forall>b\<in>set bns. \<not> prefix b url)"
    by (rule findBasename_None_iff)
next
  fix b assume h: "findBasename url bns = Some b \<and> b \<noteq> []"
  then have "prefix b url" using findBasename_mem by blast
  then obtain u where u: "url = b @ u" by (auto simp: prefix_def)
  have "applyBasename (Some bns) bn0 url = (b, stripBasename url b)"
    using h by (simp add: applyBasename_def truthy_str_def)
  with u show "\<exists>u. url = b @ u \<and> applyBasename (Some bns) bn0 url = (b, u)"
    by (simp add: stripBasename_prefix)
next
  assume "findBasename url bns = None \<or> findBasename url bns = Some []"
  then show "applyBasename (Some bns) bn0 url = (bn0, url)"
    by (auto simp: applyBasename_def truthy_str_def)
qed

theorem findBasename_first_match_witness:
  "findBasename ''/a/b/c'' [''/x'', ''/a'', ''/a/b''] = Some ''/a''
   \<and> (\<exists>i<length [''/x'', ''/a'', ''/a/b'']. [''/x'', ''/a'', ''/a/b''] ! i = ''/a''
         \<and> prefix ''/a'' ''/a/b/c''
         \<and> (\<forall>j<i. \<not> prefix ([''/x'', ''/a'', ''/a/b''] ! j) ''/a/b/c''))
   \<and> (\<exists>u. ''/a/b/c'' = ''/a'' @ u
         \<and> applyBasename (Some [''/x'', ''/a'', ''/a/b'']) '''' ''/a/b/c'' = (''/a'', u))"
proof -
  have f: "findBasename ''/a/b/c'' [''/x'', ''/a'', ''/a/b''] = Some ''/a''"
    by (simp add: findBasename_def)
  note t = findBasename_first_match[of "''/a/b/c''" "[''/x'', ''/a'', ''/a/b'']" "''/a''" "''''"]
  from t f have 1: "\<exists>i<length [''/x'', ''/a'', ''/a/b'']. [''/x'', ''/a'', ''/a/b''] ! i = ''/a''
         \<and> prefix ''/a'' ''/a/b/c''
         \<and> (\<forall>j<i. \<not> prefix ([''/x'', ''/a'', ''/a/b''] ! j) ''/a/b/c'')"
    by blast
  from t f have 2: "\<exists>u. ''/a/b/c'' = ''/a'' @ u
         \<and> applyBasename (Some [''/x'', ''/a'', ''/a/b'']) '''' ''/a/b/c'' = (''/a'', u)"
    by blast
  from f 1 2 show ?thesis by blast
qed

text \<open>
  Claim C2 as stated (longest-prefix match) fails: with the basenames \<open>/a\<close> and \<open>/a/b\<close>
  configured in this order, the URL \<open>/a/b/c\<close> gets the basename \<open>/a\<close> although the longer
  \<open>/a/b\<close> is a prefix of it too.
\<close>

theorem findBasename_not_longest:
  "findBasename ''/a/b/c'' [''/a'', ''/a/b''] = Some ''/a''
   \<and> prefix ''/a/b'' ''/a/b/c'' \<and> length ''/a'' < length ''/a/b''
   \<and> applyBasename (Some [''/a'', ''/a/b'']) '''' ''/a/b/c'' = (''/a'', ''/b/c'')"
  by (simp add: findBasename_def applyBasename_def truthy_str_def stripBasename_def substr_def)

subsection \<open>The fallback of toUrlAndAction\<close>

lemma applyBasename_hash:
  assumes "case bns of None \<Rightarrow> True | Some bs \<Rightarrow> ''#'' \<notin> set bs"
  shows "applyBasename bns bn ''#'' = (bn, ''#'')"
proof (cases bns)
  case None
  then show ?thesis by (simp add: applyBasename_def)
next
  case (Some bs)
  show ?thesis
  proof (cases "findBasename ''#'' bs")
    case None
    then show ?thesis using Some by (simp add: applyBasename_def)
  next
    case found: (Some b)
    then have mem: "b \<in> set bs" and pre: "prefix b ''#''" using findBasename_mem by auto
    have "b = [] \<or> b = ''#''"
    proof (cases b)
      case Nil
      then show ?thesis by simp
    next
      case (Cons c cs)
      with pre show ?thesis by simp
    qed
    moreover have "''#'' \<notin> set bs" using assms Some by simp
    ultimately have "b = []" using mem by auto
    then show ?thesis using found Some by (simp add: applyBasename_def truthy_str_def)
  qed
qed

lemma toUrlAndAction_with_action:
  "resolveTo api t bn = Inr r \<Longrightarrow> r_action r = Some a \<Longrightarrow>
   \<exists>res. toUrlAndAction api t bn cp = Inr res \<and> warnings res = r_warnings r"
  by (simp add: toUrlAndAction_def Let_def split: prod.splits)

text \<open>
  Claim C5.  When \<open>actionToUrl\<close> throws for the action passed as \<open>to\<close> (whatever the
  error: \<open>ParamMismatch\<close>, \<open>InvalidAction\<close>, ...), the error is caught: the URL becomes
  the placeholder \<open>#\<close>, the only trace is the development-mode warning, and
  \<open>toUrlAndAction\<close> returns a result instead of throwing.  Unless \<open>#\<close> itself is a
  configured basename, the link returned is the placeholder appended to the current
  pathname (behind the basename), with the action kept.
\<close>

theorem toUrlAndAction_fallback:
  assumes "actionToUrl api a = Inl e"
  shows "resolveTo api (ToObject a) bn =
           Inr \<lparr>r_url = ''#'', r_action = Some a, r_basename = bn,
                r_warnings = fallbackWarnings api\<rparr>
       \<and> (\<exists>res. toUrlAndAction api (ToObject a) bn cp = Inr res
                 \<and> warnings res = fallbackWarnings api)
       \<and> ((case basenames api of None \<Rightarrow> True | Some bs \<Rightarrow> ''#'' \<notin> set bs) \<longrightarrow>
            toUrlAndAction api (ToObject a) bn cp =
              Inr \<lparr>fullUrl = (if indexOf (cp @ ''#'') ''http'' = 0 then cp @ ''#''
                               else bn @ cp @ ''#''),
                   action = withBasename bn (Some a),
                   warnings = fallbackWarnings api\<rparr>)"
proof -
  have r: "resolveTo api (ToObject a) bn =
           Inr \<lparr>r_url = ''#'', r_action = Some a, r_basename = bn,
                r_warnings = fallbackWarnings api\<rparr>"
    using assms by (simp add: resolveTo_def)
  have ex: "\<exists>res. toUrlAndAction api (ToObject a) bn cp = Inr res
                 \<and> warnings res = fallbackWarnings api"
    using toUrlAndAction_with_action[OF r, of a cp] by simp
  have full: "toUrlAndAction api (ToObject a) bn cp =
              Inr \<lparr>fullUrl = (if indexOf (cp @ ''#'') ''http'' = 0 then cp @ ''#''
                               else bn @ cp @ ''#''),
                   action = withBasename bn (Some a),
                   warnings = fallbackWarnings api\<rparr>"
    if h: "case basenames api of None \<Rightarrow> True | Some bs \<Rightarrow> ''#'' \<notin> set bs"
    using applyBasename_hash[OF h, of bn] r
    by (simp add: toUrlAndAction_def Let_def absoluteUrl_def charAt_def)
  from r ex full show ?thesis by blast
qed

theorem toUrlAndAction_fallback_witness:
  "toUrlAndAction
     \<lparr>actionToUrl = (\<lambda>a. Inl (Thrown ''ParamMismatch'')),
      toAction = (\<lambda>u. Inl (Thrown ''InvalidAction'')),
      resolvePathname = (\<lambda>u c. u), basenames = Some [''/base''], development = True\<rparr>
     (ToObject \<lparr>payload = Some (7::nat), basename = None\<rparr>) ''/base'' ''/current''
   = Inr \<lparr>fullUrl = ''/base/current#'',
          action = Some \<lparr>payload = Some 7, basename = Some ''/base''\<rparr>,
          warnings = [''[rudy/Link] could not create path from action'']\<rparr>"
proof -
  let ?api = "\<lparr>actionToUrl = (\<lambda>a::nat action. Inl (Thrown ''ParamMismatch'')),
      toAction = (\<lambda>u. Inl (Thrown ''InvalidAction'')),
      resolvePathname = (\<lambda>u c. u), basenames = Some [''/base''], development = True\<rparr>"
  have h: "actionToUrl ?api \<lparr>payload = Some 7, basename = None\<rparr> = Inl (Thrown ''ParamMismatch'')"
    by simp
  show ?thesis
    using toUrlAndAction_fallback[OF h, of "''/base''" "''/current''"]
    by (simp add: fallbackWarnings_def withBasename_def truthy_str_def)
qed

subsection \<open>handlePress\<close>

lemma handlePress_shouldGo:
  "(case onClick of None \<Rightarrow> Inr True
     | Some h \<Rightarrow> (case h e of Inl err \<Rightarrow> Inl err | Inr r \<Rightarrow> Inr (r \<noteq> Some False))) = Inr go \<Longrightarrow>
   \<exists>eff. handlePress redirect act shouldDispatch onClick target isRedirect full historyIndex e = Inr eff
     \<and> (dispatched eff \<noteq> None) =
         (go \<and> act \<noteq> None \<and> shouldDispatch \<and> \<not> truthy_opt target \<and> \<not> defaultPrevented e
          \<and> \<not> (metaKey e \<or> altKey e \<or> ctrlKey e \<or> shiftKey e) \<and> button e = 0)"
  unfolding handlePress_def Let_def isModified_def
  by (cases act) auto

lemma handlePress_throws:
  "onClick = Some h \<Longrightarrow> h e = Inl err \<Longrightarrow>
   handlePress redirect act shouldDispatch onClick target isRedirect full historyIndex e = Inl err"
  unfolding handlePress_def Let_def by simp

text \<open>
  Claim C10.  A press dispatches an action exactly when an action was resolved, the
  \<open>onClick\<close> handler (if there is one) returned a value other than \<open>false\<close>,
  \<open>shouldDispatch\<close> holds, no target is set, the event had not been default-prevented when
  the handler was entered, no modifier key was held and the button is the primary one.
  In every other case (a handler that throws included) nothing is dispatched.
\<close>

theorem handlePress_dispatch_iff:
  "(\<exists>eff. handlePress redirect act shouldDispatch onClick target isRedirect full historyIndex e = Inr eff
          \<and> dispatched eff \<noteq> None)
   \<longleftrightarrow>
   (act \<noteq> None
    \<and> (case onClick of None \<Rightarrow> True | Some h \<Rightarrow> (\<exists>r. h e = Inr r \<and> r \<noteq> Some False))
    \<and> shouldDispatch
    \<and> \<not> truthy_opt target
    \<and> \<not> defaultPrevented e
    \<and> \<not> (metaKey e \<or> altKey e \<or> ctrlKey e \<or> shiftKey e)
    \<and> button e = 0)"
proof (cases onClick)
  case None
  from handlePress_shouldGo[where onClick=None and e=e and go=True and redirect=redirect
      and act=act and shouldDispatch=shouldDispatch and target=target and isRedirect=isRedirect
      and full=full and historyIndex=historyIndex]
  show ?thesis using None by auto
next
  case (Some h)
  show ?thesis
  proof (cases "h e")
    case (Inl err)
    have "handlePress redirect act shouldDispatch onClick target isRedirect full historyIndex e
            = Inl err"
      using Some Inl by (rule handlePress_throws)
    then show ?thesis using Some Inl by simp
  next
    case (Inr r)
    from handlePress_shouldGo[where onClick=onClick and e=e and go="r \<noteq> Some False"
        and redirect=redirect and act=act and shouldDispatch=shouldDispatch and target=target
        and isRedirect=isRedirect and full=full and historyIndex=historyIndex]
    show ?thesis using Some Inr by auto
  qed
qed

theorem handlePress_dispatch_iff_witness:
  "(\<exists>eff. handlePress (\<lambda>a. a + 100) (Some (1::nat)) True (Some (\<lambda>e. Inr None)) None False
            ''/home'' 0
            \<lparr>defaultPrevented = False, metaKey = False, altKey = False, ctrlKey = False,
             shiftKey = False, button = 0, hasPreventDefault = True\<rparr> = Inr eff
          \<and> dispatched eff \<noteq> None)
   \<and> \<not> (\<exists>eff. handlePress (\<lambda>a. a + 100) (Some (1::nat)) True (Some (\<lambda>e. Inr (Some False))) None
            False ''/home'' 0
            \<lparr>defaultPrevented = False, metaKey = False, altKey = False, ctrlKey = False,
             shiftKey = False, button = 0, hasPreventDefault = True\<rparr> = Inr eff
          \<and> dispatched eff \<noteq> None)"
  unfolding handlePress_dispatch_iff by (simp add: truthy_opt_def)

section \<open>Properties of the pathlessRoute middleware\<close>

subsection \<open>When the pipeline runs\<close>

lemma nameOr_nonempty: "d \<noteq> [] \<Longrightarrow> nameOr names i d \<noteq> []"
  by (simp add: nameOr_def truthy_str_def)

lemma find_filter_hd:
  "find P xs = (case filter P xs of [] \<Rightarrow> None | x # _ \<Rightarrow> Some x)"
  by (induction xs) simp_all

lemma hasCallback_truthy:
  "truthy_opt (hasCallback r ns)
     \<longleftrightarrow> (\<exists>n\<in>set ns. callbacks r n \<noteq> None)
         \<and> hd (filter (\<lambda>n. callbacks r n \<noteq> None) ns) \<noteq> []"
proof (cases "filter (\<lambda>n. callbacks r n \<noteq> None) ns")
  case Nil
  then have "\<not> (\<exists>n\<in>set ns. callbacks r n \<noteq> None)" by (simp add: filter_empty_conv)
  then show ?thesis using Nil by (simp add: hasCallback_def find_filter_hd truthy_opt_def)
next
  case (Cons x xs)
  then have "x \<in> set (filter (\<lambda>n. callbacks r n \<noteq> None) ns)" by simp
  then have "\<exists>n\<in>set ns. callbacks r n \<noteq> None" by auto
  then show ?thesis
    using Cons by (simp add: hasCallback_def find_filter_hd truthy_opt_def truthy_str_def)
qed

lemma defaultNames_set:
  "set (defaultNames names) = set (callbackNames names @ drop 3 names)"
  by (auto simp: defaultNames_def callbackNames_def)

lemma first_callback_nonempty:
  assumes "[] \<notin> set (drop 3 names)" "\<exists>n\<in>set (callbackNames names @ drop 3 names). callbacks r n \<noteq> None"
  shows "hd (filter (\<lambda>n. callbacks r n \<noteq> None) (defaultNames names)) \<noteq> []"
proof -
  let ?fs = "filter (\<lambda>n. callbacks r n \<noteq> None) (defaultNames names)"
  have "[] \<notin> set (callbackNames names)"
    using nameOr_nonempty[of "''thunk''" names 0] nameOr_nonempty[of "''beforeEnter''" names 1]
      nameOr_nonempty[of "''onComplete''" names 2]
    by (auto simp: callbackNames_def)
  then have ne: "[] \<notin> set (defaultNames names)" using assms(1) by (simp add: defaultNames_set)
  have "?fs \<noteq> []" using assms(2) by (simp add: filter_empty_conv defaultNames_set)
  then have "hd ?fs \<in> set ?fs" by (rule hd_in_set)
  then have "hd ?fs \<in> set (defaultNames names)" by simp
  then show ?thesis using ne by metis
qed

text \<open>
  Claim C9, as amended.  Whatever \<open>call\<close> and \<open>compose\<close> are, the pipeline runs exactly when
  the request has a route, the route's path is falsy (no path) and the route stores a
  function under at least one of the names the middleware was built with: the three
  callback names -- by default \<open>beforeEnter\<close>, \<open>thunk\<close> and \<open>onComplete\<close> -- and every further
  name passed to it, the first name with a function (in the order of \<open>names\<close>) not being the
  empty string.  The last condition holds by itself when no further name is empty, so also
  when there are no further names.  When it runs, the middleware resolves with the
  pipeline's result or, when that is falsy, with the action of the request; an error of
  the pipeline is passed on.  In every other case the result is that of \<open>next\<close> on the
  unchanged request.
\<close>

theorem pathlessRoute_runs_iff:
  "pathlessRoute mkCall composeFn names rq next =
     (if (\<exists>r. route rq = Some r \<and> \<not> truthy_opt (path r)
              \<and> (\<exists>n\<in>set (callbackNames names @ drop 3 names). callbacks r n \<noteq> None)
              \<and> hd (filter (\<lambda>n. callbacks r n \<noteq> None) (defaultNames names)) \<noteq> [])
      then (case pipeline mkCall composeFn names rq of
              (Inl e, rq') \<Rightarrow> (Inl e, rq')
            | (Inr res, rq') \<Rightarrow>
                (Inr (if truthy_value res then res else VAction (req_action rq')), rq'))
      else next rq)
   \<and> callbackNames [] = [''beforeEnter'', ''thunk'', ''onComplete'']
   \<and> ([] \<notin> set (drop 3 names) \<longrightarrow>
        (\<forall>r. (\<exists>n\<in>set (callbackNames names @ drop 3 names). callbacks r n \<noteq> None)
           \<longrightarrow> hd (filter (\<lambda>n. callbacks r n \<noteq> None) (defaultNames names)) \<noteq> []))"
proof (intro conjI)
  show "pathlessRoute mkCall composeFn names rq next =
     (if (\<exists>r. route rq = Some r \<and> \<not> truthy_opt (path r)
              \<and> (\<exists>n\<in>set (callbackNames names @ drop 3 names). callbacks r n \<noteq> None)
              \<and> hd (filter (\<lambda>n. callbacks r n \<noteq> None) (defaultNames names)) \<noteq> [])
      then (case pipeline mkCall composeFn names rq of
              (Inl e, rq') \<Rightarrow> (Inl e, rq')
            | (Inr res, rq') \<Rightarrow>
                (Inr (if truthy_value res then res else VAction (req_action rq')), rq'))
      else next rq)"
  proof (cases "route rq")
    case None
    then show ?thesis by (simp add: pathlessRoute_def)
  next
    case (Some r)
    have "truthy_opt (hasCallback r (defaultNames names))
       \<longleftrightarrow> (\<exists>n\<in>set (callbackNames names @ drop 3 names). callbacks r n \<noteq> None)
           \<and> hd (filter (\<lambda>n. callbacks r n \<noteq> None) (defaultNames names)) \<noteq> []"
      unfolding hasCallback_truthy defaultNames_set ..
    then show ?thesis using Some by (simp add: pathlessRoute_def)
  qed
next
  show "callbackNames [] = [''beforeEnter'', ''thunk'', ''onComplete'']"
    by (simp add: callbackNames_def nameOr_def)
next
  show "[] \<notin> set (drop 3 names) \<longrightarrow>
        (\<forall>r. (\<exists>n\<in>set (callbackNames names @ drop 3 names). callbacks r n \<noteq> None)
           \<longrightarrow> hd (filter (\<lambda>n. callbacks r n \<noteq> None) (defaultNames names)) \<noteq> [])"
    by (intro impI allI) (rule first_callback_nonempty)
qed

text \<open>
  With the default names: a pathless route with a \<open>thunk\<close> is run through the pipeline and
  resolves with the action of the request; a route with a path is left to \<open>next\<close>.
\<close>

theorem pathlessRoute_runs_iff_witness:
  "pathlessRoute (\<lambda>name q nxt. nxt q) (\<lambda>ms q. (Inr VUndefined, q)) []
     \<lparr>route = Some \<lparr>path = None, dispatch = None,
                     callbacks = (\<lambda>n. if n = ''thunk'' then Some (\<lambda>a::nat. Continue) else None)\<rparr>,
      req_action = 5, commitDispatch = Suc, trace = []\<rparr>
     (\<lambda>q. (Inr VFalse, q))
   = (Inr (VAction 5),
      \<lparr>route = Some \<lparr>path = None, dispatch = None,
                     callbacks = (\<lambda>n. if n = ''thunk'' then Some (\<lambda>a::nat. Continue) else None)\<rparr>,
       req_action = 5, commitDispatch = Suc, trace = []\<rparr>)
   \<and> pathlessRoute (\<lambda>name q nxt. nxt q) (\<lambda>ms q. (Inr VUndefined, q)) []
     \<lparr>route = Some \<lparr>path = Some ''/home'', dispatch = None,
                     callbacks = (\<lambda>n. if n = ''thunk'' then Some (\<lambda>a::nat. Continue) else None)\<rparr>,
      req_action = 5, commitDispatch = Suc, trace = []\<rparr>
     (\<lambda>q. (Inr VFalse, q))
   = (Inr VFalse,
      \<lparr>route = Some \<lparr>path = Some ''/home'', dispatch = None,
                     callbacks = (\<lambda>n. if n = ''thunk'' then Some (\<lambda>a::nat. Continue) else None)\<rparr>,
       req_action = 5, commitDispatch = Suc, trace = []\<rparr>)
   \<and> hd (filter (\<lambda>n. (if n = ''thunk'' then Some (\<lambda>a::nat. Continue :: nat cb_outcome) else None) \<noteq> None)
         (defaultNames [])) \<noteq> []"
proof -
  let ?r = "\<lparr>path = None, dispatch = None,
             callbacks = (\<lambda>n. if n = ''thunk'' then Some (\<lambda>a::nat. Continue :: nat cb_outcome) else None)\<rparr>"
  note t = pathlessRoute_runs_iff[where names = "[]"]
  have e: "[] \<notin> set (drop 3 ([] :: string list))" by simp
  have c: "\<exists>n\<in>set (callbackNames [] @ drop 3 []). callbacks ?r n \<noteq> None"
    by (simp add: callbackNames_def nameOr_def)
  from t[THEN conjunct2, THEN conjunct2] e
  have "\<forall>r :: nat route. (\<exists>n\<in>set (callbackNames [] @ drop 3 []). callbacks r n \<noteq> None)
           \<longrightarrow> hd (filter (\<lambda>n. callbacks r n \<noteq> None) (defaultNames [])) \<noteq> []"
    by (rule mp)
  then have "(\<exists>n\<in>set (callbackNames [] @ drop 3 []). callbacks ?r n \<noteq> None)
           \<longrightarrow> hd (filter (\<lambda>n. callbacks ?r n \<noteq> None) (defaultNames [])) \<noteq> []"
    by (rule spec)
  then have h: "hd (filter (\<lambda>n. callbacks ?r n \<noteq> None) (defaultNames [])) \<noteq> []"
    using c by (rule mp)
  show ?thesis
    using h
    by (simp add: t[THEN conjunct1] pipeline_def truthy_opt_def truthy_str_def
        truthy_value_def callbackNames_def nameOr_def defaultNames_def)
qed

text \<open>
  Claim C9 as stated fails: the middleware built with a fourth name \<open>onEnter\<close> runs the
  pipeline for a pathless route that has an \<open>onEnter\<close> function and none of the three
  callbacks.  Here \<open>compose\<close> runs the commit middleware: the action 5 is committed and
  the request resolves with the committed action 6, where \<open>next\<close> would have resolved with
  \<open>false\<close>.
\<close>

theorem pathlessRoute_fourth_name_runs:
  "pathlessRoute (\<lambda>name q nxt. nxt q) (\<lambda>ms q. (ms ! 1) q (\<lambda>q'. (Inr VUndefined, q')))
     [''thunk'', ''beforeEnter'', ''onComplete'', ''onEnter'']
     \<lparr>route = Some \<lparr>path = None, dispatch = None,
                     callbacks = (\<lambda>n. if n = ''onEnter'' then Some (\<lambda>a::nat. Continue) else None)\<rparr>,
      req_action = 5, commitDispatch = Suc, trace = []\<rparr>
     (\<lambda>q. (Inr VFalse, q))
   = (Inr (VAction 6),
      \<lparr>route = Some \<lparr>path = None, dispatch = None,
                     callbacks = (\<lambda>n. if n = ''onEnter'' then Some (\<lambda>a::nat. Continue) else None)\<rparr>,
       req_action = 6, commitDispatch = Suc, trace = [Committed]\<rparr>)"
  by (simp add: pathlessRoute_def hasCallback_def defaultNames_def nameOr_def pipeline_def
      callbackNames_def commitMiddleware_def truthy_opt_def truthy_str_def truthy_value_def)

subsection \<open>The commit inside the pipeline\<close>

lemma call_snd_halt:
  assumes "route rq = Some r" "\<not> proceeds r name (req_action rq)"
  shows "snd (call name rq next) = rq\<lparr>trace := trace rq @ calls r name\<rparr>"
  using assms
  by (auto simp: call_def proceeds_def calls_def Let_def split: option.splits cb_outcome.splits)

lemma call_proceed:
  assumes "route rq = Some r" "proceeds r name (req_action rq)"
  shows "call name rq next = next (rq\<lparr>trace := trace rq @ calls r name\<rparr>)"
  using assms
  by (auto simp: call_def proceeds_def calls_def Let_def split: option.splits cb_outcome.splits)

lemma commit_run:
  assumes "route rq = Some r"
  shows "commitMiddleware rq next =
     next (rq\<lparr>req_action := (if dispatch r \<noteq> Some False then commitDispatch rq (req_action rq)
                               else req_action rq),
               trace := trace rq @ (if dispatch r \<noteq> Some False then [Committed] else [])\<rparr>)"
  using assms by (simp add: commitMiddleware_def)

lemma compose_Nil_fun: "compose [] = (\<lambda>rq. (Inr VUndefined, rq))"
  by (rule ext) simp

lemma compose_Cons_fun: "compose (m # ms) = (\<lambda>rq. m rq (compose ms))"
  by (rule ext) simp

lemma pipeline_unfold:
  "pipeline call compose names rq =
     call (nameOr names 1 ''beforeEnter'') rq
       (\<lambda>rq1. commitMiddleware rq1
          (\<lambda>rq2. call (nameOr names 0 ''thunk'') rq2
             (\<lambda>rq3. call (nameOr names 2 ''onComplete'') rq3
                (\<lambda>rq4. (Inr VUndefined, rq4)))))"
  by (simp add: pipeline_def callbackNames_def Let_def compose_Nil_fun compose_Cons_fun)

lemma pipeline_trace:
  assumes r: "route rq = Some r"
  shows "snd (pipeline call compose names rq) =
     (let be = nameOr names 1 ''beforeEnter''; th = nameOr names 0 ''thunk'';
          oc = nameOr names 2 ''onComplete''; a0 = req_action rq;
          committing = (dispatch r \<noteq> Some False);
          a1 = (if committing then commitDispatch rq a0 else a0)
      in if proceeds r be a0
         then rq\<lparr>req_action := a1,
                 trace := trace rq @ calls r be @ (if committing then [Committed] else [])
                          @ calls r th @ (if proceeds r th a1 then calls r oc else [])\<rparr>
         else rq\<lparr>trace := trace rq @ calls r be\<rparr>)"
proof (cases "proceeds r (nameOr names 1 ''beforeEnter'') (req_action rq)")
  case False
  then show ?thesis
    unfolding pipeline_unfold using call_snd_halt[OF r False] by (simp add: Let_def)
next
  case bep: True
  let ?rq1 = "rq\<lparr>trace := trace rq @ calls r (nameOr names 1 ''beforeEnter'')\<rparr>"
  let ?a1 = "if dispatch r \<noteq> Some False then commitDispatch rq (req_action rq) else req_action rq"
  let ?rq2 = "?rq1\<lparr>req_action := ?a1,
       trace := trace ?rq1 @ (if dispatch r \<noteq> Some False then [Committed] else [])\<rparr>"
  have r1: "route ?rq1 = Some r" using r by simp
  have r2: "route ?rq2 = Some r" using r by simp
  have step: "pipeline call compose names rq =
      call (nameOr names 0 ''thunk'') ?rq2
             (\<lambda>rq3. call (nameOr names 2 ''onComplete'') rq3
                (\<lambda>rq4. (Inr VUndefined, rq4)))"
    unfolding pipeline_unfold call_proceed[OF r bep] commit_run[OF r1] by simp
  show ?thesis
  proof (cases "proceeds r (nameOr names 0 ''thunk'') ?a1")
    case False
    then have nf: "\<not> proceeds r (nameOr names 0 ''thunk'') (req_action ?rq2)" by simp
    show ?thesis
      unfolding step using call_snd_halt[OF r2 nf] bep False by (simp add: Let_def)
  next
    case thp: True
    then have p2: "proceeds r (nameOr names 0 ''thunk'') (req_action ?rq2)" by simp
    let ?rq3 = "?rq2\<lparr>trace := trace ?rq2 @ calls r (nameOr names 0 ''thunk'')\<rparr>"
    have r3: "route ?rq3 = Some r" using r by simp
    have step2: "pipeline call compose names rq =
        call (nameOr names 2 ''onComplete'') ?rq3 (\<lambda>rq4. (Inr VUndefined, rq4))"
      unfolding step call_proceed[OF r2 p2] by simp
    show ?thesis
    proof (cases "proceeds r (nameOr names 2 ''onComplete'') (req_action ?rq3)")
      case True
      show ?thesis
        unfolding step2 call_proceed[OF r3 True] using bep thp by (simp add: Let_def)
    next
      case False
      show ?thesis
        unfolding step2 using call_snd_halt[OF r3 False] bep thp by (simp add: Let_def)
    qed
  qed
qed

lemma commits_append: "commits (xs @ ys) = commits xs + commits ys"
  by (simp add: commits_def)

lemma commits_calls: "commits (calls r n) = 0"
  by (simp add: commits_def calls_def)

lemma pathlessRoute_runs_pipeline:
  assumes "route rq = Some r" "\<not> truthy_opt (path r)"
    "truthy_opt (hasCallback r (defaultNames names))"
  shows "snd (pathlessRoute mkCall composeFn names rq next) = snd (pipeline mkCall composeFn names rq)"
  using assms by (simp add: pathlessRoute_def split: prod.splits sum.splits)

text \<open>
  Claim C4, as amended.  While the middleware processes a pathless route (with \<open>compose\<close>
  and \<open>call\<close> as the spec describes them), the effects are, in this order: the
  \<open>beforeEnter\<close> callback if the route has one; then, provided that callback let the chain
  proceed, the commit of the action if and only if the route's \<open>dispatch\<close> flag is not
  \<open>false\<close>; then the \<open>thunk\<close> callback; then, if the thunk let the chain proceed, the
  \<open>onComplete\<close> callback.  So the action is committed exactly once, between \<open>beforeEnter\<close>
  and \<open>thunk\<close>, when \<open>beforeEnter\<close> proceeds and the flag is not \<open>false\<close>; it is never
  committed when the flag is \<open>false\<close> (the callbacks run all the same and the request's
  action stays as it was); and it is not committed either when \<open>beforeEnter\<close> blocks,
  redirects or throws, whatever the flag.
\<close>

theorem pathlessRoute_commit_once:
  assumes "route rq = Some r" and "\<not> truthy_opt (path r)"
    and "truthy_opt (hasCallback r (defaultNames names))"
  shows "(let be = nameOr names 1 ''beforeEnter''; th = nameOr names 0 ''thunk'';
              oc = nameOr names 2 ''onComplete''; a0 = req_action rq;
              committing = (dispatch r \<noteq> Some False);
              a1 = (if committing then commitDispatch rq a0 else a0);
              rq' = snd (pathlessRoute call compose names rq next)
          in trace rq' =
               trace rq @ calls r be
               @ (if proceeds r be a0
                  then (if committing then [Committed] else []) @ calls r th
                       @ (if proceeds r th a1 then calls r oc else [])
                  else [])
           \<and> commits (drop (length (trace rq)) (trace rq')) =
               (if proceeds r be a0 \<and> committing then 1 else 0)
           \<and> req_action rq' = (if proceeds r be a0 then a1 else a0))"
  unfolding pathlessRoute_runs_pipeline[OF assms] Let_def
  using pipeline_trace[OF assms(1), of names]
  by (simp add: Let_def commits_append commits_calls) (simp add: commits_def)

theorem pathlessRoute_commit_once_witness:
  "trace (snd (pathlessRoute call compose []
       \<lparr>route = Some \<lparr>path = None, dispatch = Some True,
                       callbacks = (\<lambda>n. Some (\<lambda>a::nat. Continue))\<rparr>,
        req_action = 0, commitDispatch = Suc, trace = []\<rparr>
       (\<lambda>q. (Inr VUndefined, q))))
     = [Called ''beforeEnter'', Committed, Called ''thunk'', Called ''onComplete'']
   \<and> trace (snd (pathlessRoute call compose []
       \<lparr>route = Some \<lparr>path = None, dispatch = Some False,
                       callbacks = (\<lambda>n. Some (\<lambda>a::nat. Continue))\<rparr>,
        req_action = 0, commitDispatch = Suc, trace = []\<rparr>
       (\<lambda>q. (Inr VUndefined, q))))
     = [Called ''beforeEnter'', Called ''thunk'', Called ''onComplete'']"
proof -
  let ?r = "\<lambda>d. \<lparr>path = None, dispatch = Some d, callbacks = (\<lambda>n. Some (\<lambda>a::nat. Continue))\<rparr>"
  let ?rq = "\<lambda>d. \<lparr>route = Some (?r d), req_action = 0, commitDispatch = Suc, trace = []\<rparr>"
  have h1: "route (?rq d) = Some (?r d)" for d by simp
  have h2: "\<not> truthy_opt (path (?r d))" for d by (simp add: truthy_opt_def)
  have h3: "truthy_opt (hasCallback (?r d) (defaultNames []))" for d
    by (simp add: hasCallback_def defaultNames_def nameOr_def truthy_opt_def truthy_str_def)
  show ?thesis
    using pathlessRoute_commit_once[OF h1 h2 h3, of True "\<lambda>q. (Inr VUndefined, q)"]
      pathlessRoute_commit_once[OF h1 h2 h3, of False "\<lambda>q. (Inr VUndefined, q)"]
    by (simp add: Let_def calls_def proceeds_def nameOr_def)
qed

text \<open>
  Claim C4 as stated fails: a route whose \<open>dispatch\<close> flag is not \<open>false\<close> and whose
  \<open>beforeEnter\<close> blocks is processed without any commit; the middleware resolves with the
  request's uncommitted action.
\<close>

theorem pathlessRoute_blocked_no_commit:
  "dispatch \<lparr>path = None, dispatch = None,
             callbacks = (\<lambda>n. if n = ''beforeEnter'' then Some (\<lambda>a::nat. Stop VFalse)
                               else if n = ''thunk'' then Some (\<lambda>a. Continue) else None)\<rparr>
     \<noteq> Some False
   \<and> pathlessRoute call compose []
       \<lparr>route = Some \<lparr>path = None, dispatch = None,
                  callbacks = (\<lambda>n. if n = ''beforeEnter'' then Some (\<lambda>a::nat. Stop VFalse)
                                    else if n = ''thunk'' then Some (\<lambda>a. Continue) else None)\<rparr>,
        req_action = 0, commitDispatch = Suc, trace = []\<rparr>
       (\<lambda>q. (Inr VUndefined, q))
     = (Inr (VAction 0),
        \<lparr>route = Some \<lparr>path = None, dispatch = None,
                  callbacks = (\<lambda>n. if n = ''beforeEnter'' then Some (\<lambda>a::nat. Stop VFalse)
                                    else if n = ''thunk'' then Some (\<lambda>a. Continue) else None)\<rparr>,
         req_action = 0, commitDispatch = Suc, trace = [Called ''beforeEnter'']\<rparr>)"
  by (simp add: pathlessRoute_def pipeline_def callbackNames_def defaultNames_def
      nameOr_def hasCallback_def truthy_opt_def truthy_str_def call_def commitMiddleware_def
      truthy_value_def)

section \<open>The routes map: \<^verbatim>\<open>formatRoutes\<close>\<close>

subsection \<open>The store\<close>

lemma length_setProp [simp]: "length (setProp s a k v) = length s"
  by (simp add: setProp_def)

lemma nth_setProp_other: "b \<noteq> a \<Longrightarrow> setProp s a k v ! b = s ! b"
  by (simp add: setProp_def)

lemma callable_setProp [simp]: "callable (setProp s a k v ! b) = callable (s ! b)"
  by (cases "b = a") (auto simp: setProp_def)

lemma propsOf_setProp:
  "propsOf (setProp s a k v) b =
     (if b = a \<and> a < length s then AList.update k v (propsOf s a) else propsOf s b)"
  by (auto simp: setProp_def propsOf_def)

lemma getProp_setProp:
  "a < length s \<Longrightarrow>
   getProp (setProp s a k v) b k' = (if b = a \<and> k' = k then v else getProp s b k')"
  by (auto simp: getProp_def propsOf_setProp update_conv')

lemma getProp_setProp_other: "b \<noteq> a \<Longrightarrow> getProp (setProp s a k v) b k' = getProp s b k'"
  by (simp add: getProp_def propsOf_setProp)

lemma keys_update:
  "map fst (AList.update k v ps) = (if k \<in> fst ` set ps then map fst ps else map fst ps @ [k])"
  by (simp add: update_keys)

lemma getProp_in_keys: "getProp s a k \<noteq> JUndefined \<Longrightarrow> k \<in> fst ` set (propsOf s a)"
  by (auto simp: getProp_def split: option.splits dest: map_of_SomeD intro: rev_image_eqI)

lemma setProp_same:
  assumes "a < length s" "k \<in> fst ` set (propsOf s a)" "getProp s a k = v"
  shows "setProp s a k v = s"
proof -
  from assms(2) obtain w where "map_of (propsOf s a) k = Some w"
    by (metis domD dom_map_of_conv_image_fst)
  with assms(3) have "map_of (propsOf s a) k = Some v" by (simp add: getProp_def)
  then have "AList.update k v (props (s ! a)) = props (s ! a)"
    using assms(1) by (simp add: propsOf_def update_triv)
  then show ?thesis using assms(1) by (simp add: setProp_def)
qed

lemma propsOf_append:
  "propsOf (s @ [c]) a = (if a = length s then props c else propsOf s a)"
  by (auto simp: propsOf_def nth_append)

lemma getProp_append_old: "a < length s \<Longrightarrow> getProp (s @ [c]) a k = getProp s a k"
  by (simp add: getProp_def propsOf_append)

lemma setProp_append_last:
  "setProp (s @ [c]) (length s) k v = s @ [c\<lparr>props := AList.update k v (props c)\<rparr>]"
  by (simp add: setProp_def)

lemma setProp_append_old:
  "a < length s \<Longrightarrow> setProp (s @ [c]) a k v = setProp s a k v @ [c]"
  by (simp add: setProp_def nth_append list_update_append)

lemma formatStep_str:
  assumes "getProp s r t = JStr p" "r < length s"
  shows "formatStep None r ia t s =
     Inr (setProp s r t (JRef (length s))
          @ [\<lparr>callable = False, props = [(''path'', JStr p), (''type'', JStr t)]\<rparr>])"
  using assms
  by (simp add: formatStep_def formatRoute_def alloc_def isFunction_def setType_def
      setProp_append_last setProp_append_old)

lemma formatStep_fun:
  assumes "getProp s r t = JRef a" "a < length s" "callable (s ! a)" "r < length s"
  shows "formatStep None r ia t s =
     Inr (setProp s r t (JRef (length s))
          @ [\<lparr>callable = False, props = [(''thunk'', JRef a), (''type'', JStr t)]\<rparr>])"
  using assms
  by (simp add: formatStep_def formatRoute_def alloc_def isFunction_def setType_def
      setProp_append_last setProp_append_old nth_append)

lemma formatStep_obj:
  assumes "getProp s r t = JRef a" "a < length s" "\<not> callable (s ! a)" "r < length s" "a \<noteq> r"
  shows "formatStep None r ia t s = Inr (setProp s a ''type'' (JStr t))"
proof -
  have g: "getProp (setProp s a ''type'' (JStr t)) r t = JRef a"
    using assms by (simp add: getProp_setProp_other)
  have k: "t \<in> fst ` set (propsOf (setProp s a ''type'' (JStr t)) r)"
    using g by (intro getProp_in_keys) simp
  have "setProp (setProp s a ''type'' (JStr t)) r t (JRef a) = setProp s a ''type'' (JStr t)"
    using assms(4) k g by (intro setProp_same) simp_all
  then show ?thesis
    using assms by (simp add: formatStep_def formatRoute_def isFunction_def setType_def)
qed

lemma routeValue_cases:
  assumes "routeValue s r v"
  obtains (str) p where "v = JStr p"
    | (func) a where "v = JRef a" "a < length s" "a \<noteq> r" "callable (s ! a)"
    | (obj) a where "v = JRef a" "a < length s" "a \<noteq> r" "\<not> callable (s ! a)"
  using assms by (cases v) (auto simp: routeValue_def)

lemma routeValue_key: "routeValue s r (getProp s a k) \<Longrightarrow> k \<in> fst ` set (propsOf s a)"
  by (rule getProp_in_keys) (auto simp: routeValue_def)

lemma keys_setProp_existing:
  "k \<in> fst ` set (propsOf s a) \<Longrightarrow> map fst (propsOf (setProp s a k v) b) = map fst (propsOf s b)"
  by (auto simp: propsOf_setProp keys_update)

text \<open>One step of the loop, without a formatter, on a well-formed entry.\<close>

lemma formatStep_None:
  assumes r: "r < length s" and v: "routeValue s r (getProp s r t)"
  shows "\<exists>s1. formatStep None r ia t s = Inr s1
      \<and> length s \<le> length s1
      \<and> map fst (propsOf s1 r) = map fst (propsOf s r)
      \<and> (\<forall>k. k \<noteq> t \<longrightarrow> getProp s1 r k = getProp s r k)
      \<and> (\<forall>b<length s. callable (s1 ! b) = callable (s ! b))
      \<and> (\<forall>b<length s. b \<noteq> r \<longrightarrow> (getProp s r t = JRef b \<longrightarrow> callable (s ! b)) \<longrightarrow> s1 ! b = s ! b)
      \<and> (\<forall>p. getProp s r t = JStr p \<longrightarrow>
            length s < length s1 \<and> getProp s1 r t = JRef (length s)
            \<and> s1 ! length s = \<lparr>callable = False, props = [(''path'', JStr p), (''type'', JStr t)]\<rparr>)
      \<and> (\<forall>a. getProp s r t = JRef a \<and> callable (s ! a) \<longrightarrow>
            length s < length s1 \<and> getProp s1 r t = JRef (length s)
            \<and> s1 ! length s = \<lparr>callable = False, props = [(''thunk'', JRef a), (''type'', JStr t)]\<rparr>)
      \<and> (\<forall>a. getProp s r t = JRef a \<and> \<not> callable (s ! a) \<longrightarrow>
            getProp s1 r t = JRef a
            \<and> s1 ! a = (s ! a)\<lparr>props := AList.update ''type'' (JStr t) (props (s ! a))\<rparr>)"
proof -
  have key: "t \<in> fst ` set (propsOf s r)" using v by (rule routeValue_key)
  from v show ?thesis
  proof (cases rule: routeValue_cases)
    case (str p)
    let ?s1 = "setProp s r t (JRef (length s))
          @ [\<lparr>callable = False, props = [(''path'', JStr p), (''type'', JStr t)]\<rparr>]"
    have st: "formatStep None r ia t s = Inr ?s1" using str r by (rule formatStep_str)
    have keys: "map fst (propsOf ?s1 r) = map fst (propsOf s r)"
      using r key by (simp add: propsOf_append keys_setProp_existing)
    have other: "\<forall>k. k \<noteq> t \<longrightarrow> getProp ?s1 r k = getProp s r k"
      using r by (simp add: getProp_append_old getProp_setProp)
    have call: "\<forall>b<length s. callable (?s1 ! b) = callable (s ! b)"
      by (simp add: nth_append)
    have frame: "\<forall>b<length s. b \<noteq> r \<longrightarrow> ?s1 ! b = s ! b"
      by (simp add: nth_append nth_setProp_other)
    have res: "getProp ?s1 r t = JRef (length s)"
      using r by (simp add: getProp_append_old getProp_setProp)
    show ?thesis
      unfolding st using keys other call frame res str by (simp add: nth_append)
  next
    case (func a)
    let ?s1 = "setProp s r t (JRef (length s))
          @ [\<lparr>callable = False, props = [(''thunk'', JRef a), (''type'', JStr t)]\<rparr>]"
    have st: "formatStep None r ia t s = Inr ?s1"
      using func r by (intro formatStep_fun) simp_all
    have keys: "map fst (propsOf ?s1 r) = map fst (propsOf s r)"
      using r key by (simp add: propsOf_append keys_setProp_existing)
    have other: "\<forall>k. k \<noteq> t \<longrightarrow> getProp ?s1 r k = getProp s r k"
      using r by (simp add: getProp_append_old getProp_setProp)
    have call: "\<forall>b<length s. callable (?s1 ! b) = callable (s ! b)"
      by (simp add: nth_append)
    have frame: "\<forall>b<length s. b \<noteq> r \<longrightarrow> ?s1 ! b = s ! b"
      by (simp add: nth_append nth_setProp_other)
    have res: "getProp ?s1 r t = JRef (length s)"
      using r by (simp add: getProp_append_old getProp_setProp)
    show ?thesis
      unfolding st using keys other call frame res func by (simp add: nth_append)
  next
    case (obj a)
    let ?s1 = "setProp s a ''type'' (JStr t)"
    have st: "formatStep None r ia t s = Inr ?s1"
      using obj r by (intro formatStep_obj) simp_all
    have keys: "map fst (propsOf ?s1 r) = map fst (propsOf s r)"
      using obj by (simp add: propsOf_setProp)
    have other: "\<forall>k. getProp ?s1 r k = getProp s r k"
      using obj by (simp add: getProp_setProp_other)
    have frame: "\<forall>b<length s. b \<noteq> a \<longrightarrow> ?s1 ! b = s ! b"
      by (simp add: nth_setProp_other)
    have cell: "?s1 ! a = (s ! a)\<lparr>props := AList.update ''type'' (JStr t) (props (s ! a))\<rparr>"
      using obj by (simp add: setProp_def)
    show ?thesis
      unfolding st using keys other frame cell obj by auto
  qed
qed

lemma routeValue_mono: "routeValue s r v \<Longrightarrow> length s \<le> length s1 \<Longrightarrow> routeValue s1 r v"
  by (cases v) (auto simp: routeValue_def)

lemma routeValue_ref: "routeValue s r (JRef b) \<Longrightarrow> b < length s \<and> b \<noteq> r"
  by (simp add: routeValue_def)

lemma formatAll_None:
  assumes "r < length s" "distinct ts" "\<forall>t\<in>set ts. routeValue s r (getProp s r t)"
  shows "\<exists>s'. formatAll None r ia ts s = Inr s'
      \<and> length s \<le> length s'
      \<and> map fst (propsOf s' r) = map fst (propsOf s r)
      \<and> (\<forall>k. k \<notin> set ts \<longrightarrow> getProp s' r k = getProp s r k)
      \<and> (\<forall>b<length s. callable (s' ! b) = callable (s ! b))
      \<and> (\<forall>b<length s. b \<noteq> r \<longrightarrow> (\<forall>t\<in>set ts. getProp s r t = JRef b \<longrightarrow> callable (s ! b))
            \<longrightarrow> s' ! b = s ! b)
      \<and> (\<forall>t\<in>set ts. \<forall>p. getProp s r t = JStr p \<longrightarrow>
            (\<exists>a. length s \<le> a \<and> a < length s' \<and> getProp s' r t = JRef a
              \<and> s' ! a = \<lparr>callable = False, props = [(''path'', JStr p), (''type'', JStr t)]\<rparr>))
      \<and> (\<forall>t\<in>set ts. \<forall>a. getProp s r t = JRef a \<and> callable (s ! a) \<longrightarrow>
            (\<exists>a'. length s \<le> a' \<and> a' < length s' \<and> getProp s' r t = JRef a'
              \<and> s' ! a' = \<lparr>callable = False, props = [(''thunk'', JRef a), (''type'', JStr t)]\<rparr>))
      \<and> (\<forall>t\<in>set ts. \<forall>a. getProp s r t = JRef a \<and> \<not> callable (s ! a) \<longrightarrow>
            getProp s' r t = JRef a
            \<and> ((\<forall>t'\<in>set ts. t' \<noteq> t \<longrightarrow> getProp s r t' \<noteq> JRef a) \<longrightarrow>
                s' ! a = (s ! a)\<lparr>props := AList.update ''type'' (JStr t) (props (s ! a))\<rparr>))"
  using assms
proof (induction ts arbitrary: s)
  case Nil
  then show ?case by simp
next
  case (Cons t ts)
  have r: "r < length s" by fact
  have tv: "routeValue s r (getProp s r t)" using Cons.prems(3) by simp
  have tnotin: "t \<notin> set ts" and dts: "distinct ts" using Cons.prems(2) by simp_all
  have vals: "\<And>u. u \<in> set ts \<Longrightarrow> routeValue s r (getProp s r u)" using Cons.prems(3) by simp
  from formatStep_None[OF r tv, of ia] obtain s1 where step: "formatStep None r ia t s = Inr s1
      \<and> length s \<le> length s1
      \<and> map fst (propsOf s1 r) = map fst (propsOf s r)
      \<and> (\<forall>k. k \<noteq> t \<longrightarrow> getProp s1 r k = getProp s r k)
      \<and> (\<forall>b<length s. callable (s1 ! b) = callable (s ! b))
      \<and> (\<forall>b<length s. b \<noteq> r \<longrightarrow> (getProp s r t = JRef b \<longrightarrow> callable (s ! b)) \<longrightarrow> s1 ! b = s ! b)
      \<and> (\<forall>p. getProp s r t = JStr p \<longrightarrow>
            length s < length s1 \<and> getProp s1 r t = JRef (length s)
            \<and> s1 ! length s = \<lparr>callable = False, props = [(''path'', JStr p), (''type'', JStr t)]\<rparr>)
      \<and> (\<forall>a. getProp s r t = JRef a \<and> callable (s ! a) \<longrightarrow>
            length s < length s1 \<and> getProp s1 r t = JRef (length s)
            \<and> s1 ! length s = \<lparr>callable = False, props = [(''thunk'', JRef a), (''type'', JStr t)]\<rparr>)
      \<and> (\<forall>a. getProp s r t = JRef a \<and> \<not> callable (s ! a) \<longrightarrow>
            getProp s1 r t = JRef a
            \<and> s1 ! a = (s ! a)\<lparr>props := AList.update ''type'' (JStr t) (props (s ! a))\<rparr>)" ..
  note st = step[THEN conjunct1]
  note step = step[THEN conjunct2]
  note len1 = step[THEN conjunct1]
  note step = step[THEN conjunct2]
  note keys1 = step[THEN conjunct1]
  note step = step[THEN conjunct2]
  note other1 = step[THEN conjunct1, rule_format]
  note step = step[THEN conjunct2]
  note call1 = step[THEN conjunct1, rule_format]
  note step = step[THEN conjunct2]
  have frame1: "s1 ! b = s ! b"
    if "b < length s" "b \<noteq> r" "getProp s r t = JRef b \<longrightarrow> callable (s ! b)" for b
    using step[THEN conjunct1] that by blast
  note step = step[THEN conjunct2]
  note str1 = step[THEN conjunct1, rule_format]
  note step = step[THEN conjunct2]
  have fun1: "length s < length s1 \<and> getProp s1 r t = JRef (length s)
            \<and> s1 ! length s = \<lparr>callable = False, props = [(''thunk'', JRef a), (''type'', JStr t)]\<rparr>"
    if "getProp s r t = JRef a" "callable (s ! a)" for a
    using step[THEN conjunct1] that by blast
  have obj1: "getProp s1 r t = JRef a
            \<and> s1 ! a = (s ! a)\<lparr>props := AList.update ''type'' (JStr t) (props (s ! a))\<rparr>"
    if "getProp s r t = JRef a" "\<not> callable (s ! a)" for a
    using step[THEN conjunct2] that by blast
  have same: "getProp s1 r u = getProp s r u" if "u \<in> set ts" for u
    using that other1[of u] tnotin by auto
  have r1: "r < length s1" using r len1 by simp
  have vals1: "\<forall>u\<in>set ts. routeValue s1 r (getProp s1 r u)"
    using vals same len1 by (auto intro: routeValue_mono)
  from Cons.IH[OF r1 dts vals1] obtain s' where ih: "formatAll None r ia ts s1 = Inr s'
      \<and> length s1 \<le> length s'
      \<and> map fst (propsOf s' r) = map fst (propsOf s1 r)
      \<and> (\<forall>k. k \<notin> set ts \<longrightarrow> getProp s' r k = getProp s1 r k)
      \<and> (\<forall>b<length s1. callable (s' ! b) = callable (s1 ! b))
      \<and> (\<forall>b<length s1. b \<noteq> r \<longrightarrow> (\<forall>t\<in>set ts. getProp s1 r t = JRef b \<longrightarrow> callable (s1 ! b))
            \<longrightarrow> s' ! b = s1 ! b)
      \<and> (\<forall>t\<in>set ts. \<forall>p. getProp s1 r t = JStr p \<longrightarrow>
            (\<exists>a. length s1 \<le> a \<and> a < length s' \<and> getProp s' r t = JRef a
              \<and> s' ! a = \<lparr>callable = False, props = [(''path'', JStr p), (''type'', JStr t)]\<rparr>))
      \<and> (\<forall>t\<in>set ts. \<forall>a. getProp s1 r t = JRef a \<and> callable (s1 ! a) \<longrightarrow>
            (\<exists>a'. length s1 \<le> a' \<and> a' < length s' \<and> getProp s' r t = JRef a'
              \<and> s' ! a' = \<lparr>callable = False, props = [(''thunk'', JRef a), (''type'', JStr t)]\<rparr>))
      \<and> (\<forall>t\<in>set ts. \<forall>a. getProp s1 r t = JRef a \<and> \<not> callable (s1 ! a) \<longrightarrow>
            getProp s' r t = JRef a
            \<and> ((\<forall>t'\<in>set ts. t' \<noteq> t \<longrightarrow> getProp s1 r t' \<noteq> JRef a) \<longrightarrow>
                s' ! a = (s1 ! a)\<lparr>props := AList.update ''type'' (JStr t) (props (s1 ! a))\<rparr>))" ..
  note all = ih[THEN conjunct1]
  note ih = ih[THEN conjunct2]
  note len2 = ih[THEN conjunct1]
  note ih = ih[THEN conjunct2]
  note keys2 = ih[THEN conjunct1]
  note ih = ih[THEN conjunct2]
  note other2 = ih[THEN conjunct1, rule_format]
  note ih = ih[THEN conjunct2]
  note call2 = ih[THEN conjunct1, rule_format]
  note ih = ih[THEN conjunct2]
  have frame2: "s' ! b = s1 ! b"
    if "b < length s1" "b \<noteq> r" "\<forall>u\<in>set ts. getProp s1 r u = JRef b \<longrightarrow> callable (s1 ! b)" for b
    using ih[THEN conjunct1] that by blast
  note ih = ih[THEN conjunct2]
  note str2 = ih[THEN conjunct1, rule_format]
  note ih = ih[THEN conjunct2]
  have fun2: "\<exists>a'. length s1 \<le> a' \<and> a' < length s' \<and> getProp s' r u = JRef a'
              \<and> s' ! a' = \<lparr>callable = False, props = [(''thunk'', JRef a), (''type'', JStr u)]\<rparr>"
    if "u \<in> set ts" "getProp s1 r u = JRef a" "callable (s1 ! a)" for u a
    using ih[THEN conjunct1] that by blast
  have obj2: "getProp s' r u = JRef a
            \<and> ((\<forall>t'\<in>set ts. t' \<noteq> u \<longrightarrow> getProp s1 r t' \<noteq> JRef a) \<longrightarrow>
                s' ! a = (s1 ! a)\<lparr>props := AList.update ''type'' (JStr u) (props (s1 ! a))\<rparr>)"
    if "u \<in> set ts" "getProp s1 r u = JRef a" "\<not> callable (s1 ! a)" for u a
    using ih[THEN conjunct2] that by blast
  have old: "\<And>u b. u \<in> set ts \<Longrightarrow> getProp s r u = JRef b \<Longrightarrow> b < length s \<and> b \<noteq> r"
    using vals routeValue_ref by metis
  have fresh_keep: "s' ! length s = s1 ! length s" if "length s < length s1"
  proof (rule frame2)
    show "length s < length s1" by fact
    show "length s \<noteq> r" using r by simp
    show "\<forall>u\<in>set ts. getProp s1 r u = JRef (length s) \<longrightarrow> callable (s1 ! length s)"
      using same old by fastforce
  qed
  have run: "formatAll None r ia (t # ts) s = Inr s'" using st all by simp
  have A: "length s \<le> length s'" using len1 len2 by simp
  have B: "map fst (propsOf s' r) = map fst (propsOf s r)" using keys1 keys2 by simp
  have C: "\<forall>k. k \<notin> set (t # ts) \<longrightarrow> getProp s' r k = getProp s r k"
    using other1 other2 by simp
  have D: "\<forall>b<length s. callable (s' ! b) = callable (s ! b)"
    using call1 call2 len1 by simp
  have E: "\<forall>b<length s. b \<noteq> r \<longrightarrow>
        (\<forall>u\<in>set (t # ts). getProp s r u = JRef b \<longrightarrow> callable (s ! b)) \<longrightarrow> s' ! b = s ! b"
  proof (intro allI impI)
    fix b assume b: "b < length s" "b \<noteq> r"
      and h: "\<forall>u\<in>set (t # ts). getProp s r u = JRef b \<longrightarrow> callable (s ! b)"
    have "s' ! b = s1 ! b"
    proof (rule frame2)
      show "b < length s1" using b len1 by simp
      show "b \<noteq> r" by fact
      show "\<forall>u\<in>set ts. getProp s1 r u = JRef b \<longrightarrow> callable (s1 ! b)"
        using h same call1[OF b(1)] by simp
    qed
    moreover have "s1 ! b = s ! b" using frame1[OF b] h by simp
    ultimately show "s' ! b = s ! b" by simp
  qed
  have F: "\<forall>u\<in>set (t # ts). \<forall>p. getProp s r u = JStr p \<longrightarrow>
            (\<exists>a. length s \<le> a \<and> a < length s' \<and> getProp s' r u = JRef a
              \<and> s' ! a = \<lparr>callable = False, props = [(''path'', JStr p), (''type'', JStr u)]\<rparr>)"
  proof (intro ballI allI impI)
    fix u p assume u: "u \<in> set (t # ts)" and g: "getProp s r u = JStr p"
    show "\<exists>a. length s \<le> a \<and> a < length s' \<and> getProp s' r u = JRef a
              \<and> s' ! a = \<lparr>callable = False, props = [(''path'', JStr p), (''type'', JStr u)]\<rparr>"
    proof (cases "u = t")
      case True
      from str1[of p] g True have
        l: "length s < length s1" and gp: "getProp s1 r t = JRef (length s)"
        and c: "s1 ! length s = \<lparr>callable = False, props = [(''path'', JStr p), (''type'', JStr t)]\<rparr>"
        by simp_all
      have "getProp s' r t = JRef (length s)" using other2[OF tnotin] gp by simp
      moreover have "s' ! length s = s1 ! length s" using fresh_keep[OF l] .
      ultimately show ?thesis using True l len2 c by auto
    next
      case False
      then have uin: "u \<in> set ts" using u by simp
      from str2[OF uin, of p] same[OF uin] g len1 show ?thesis by auto
    qed
  qed
  have G: "\<forall>u\<in>set (t # ts). \<forall>a. getProp s r u = JRef a \<and> callable (s ! a) \<longrightarrow>
            (\<exists>a'. length s \<le> a' \<and> a' < length s' \<and> getProp s' r u = JRef a'
              \<and> s' ! a' = \<lparr>callable = False, props = [(''thunk'', JRef a), (''type'', JStr u)]\<rparr>)"
  proof (intro ballI allI impI)
    fix u a assume u: "u \<in> set (t # ts)" and g: "getProp s r u = JRef a \<and> callable (s ! a)"
    show "\<exists>a'. length s \<le> a' \<and> a' < length s' \<and> getProp s' r u = JRef a'
              \<and> s' ! a' = \<lparr>callable = False, props = [(''thunk'', JRef a), (''type'', JStr u)]\<rparr>"
    proof (cases "u = t")
      case True
      from fun1[of a] g True have
        l: "length s < length s1" and gp: "getProp s1 r t = JRef (length s)"
        and c: "s1 ! length s = \<lparr>callable = False, props = [(''thunk'', JRef a), (''type'', JStr t)]\<rparr>"
        by simp_all
      have "getProp s' r t = JRef (length s)" using other2[OF tnotin] gp by simp
      moreover have "s' ! length s = s1 ! length s" using fresh_keep[OF l] .
      ultimately show ?thesis using True l len2 c by auto
    next
      case False
      then have uin: "u \<in> set ts" using u by simp
      have a: "a < length s" using old[OF uin] g by simp
      from fun2[OF uin, of a] same[OF uin] g call1[OF a] len1 show ?thesis by auto
    qed
  qed
  have H: "\<forall>u\<in>set (t # ts). \<forall>a. getProp s r u = JRef a \<and> \<not> callable (s ! a) \<longrightarrow>
            getProp s' r u = JRef a
            \<and> ((\<forall>t'\<in>set (t # ts). t' \<noteq> u \<longrightarrow> getProp s r t' \<noteq> JRef a) \<longrightarrow>
                s' ! a = (s ! a)\<lparr>props := AList.update ''type'' (JStr u) (props (s ! a))\<rparr>)"
  proof (intro ballI allI impI conjI)
    fix u a assume u: "u \<in> set (t # ts)" and g: "getProp s r u = JRef a \<and> \<not> callable (s ! a)"
    show "getProp s' r u = JRef a"
    proof (cases "u = t")
      case True
      then show ?thesis using obj1[of a] g other2[OF tnotin] by simp
    next
      case False
      then have uin: "u \<in> set ts" using u by simp
      have a: "a < length s" using old[OF uin] g by simp
      from obj2[OF uin, of a] same[OF uin] g call1[OF a] show ?thesis by simp
    qed
  next
    fix u a assume u: "u \<in> set (t # ts)" and g: "getProp s r u = JRef a \<and> \<not> callable (s ! a)"
      and uniq: "\<forall>t'\<in>set (t # ts). t' \<noteq> u \<longrightarrow> getProp s r t' \<noteq> JRef a"
    show "s' ! a = (s ! a)\<lparr>props := AList.update ''type'' (JStr u) (props (s ! a))\<rparr>"
    proof (cases "u = t")
      case True
      have av: "a < length s \<and> a \<noteq> r" using tv g True routeValue_ref by metis
      have c: "s1 ! a = (s ! a)\<lparr>props := AList.update ''type'' (JStr t) (props (s ! a))\<rparr>"
        using obj1[of a] g True by simp
      have "s' ! a = s1 ! a"
      proof (rule frame2)
        show "a < length s1" using av len1 by simp
        show "a \<noteq> r" using av by simp
        show "\<forall>v\<in>set ts. getProp s1 r v = JRef a \<longrightarrow> callable (s1 ! a)"
          using uniq same True tnotin by auto
      qed
      then show ?thesis using c True by simp
    next
      case False
      then have uin: "u \<in> set ts" using u by simp
      have av: "a < length s \<and> a \<noteq> r" using old[OF uin] g by simp
      have nt: "getProp s r t \<noteq> JRef a" using uniq False by simp
      have keep: "s1 ! a = s ! a" using frame1[of a] av nt by simp
      have "\<forall>t'\<in>set ts. t' \<noteq> u \<longrightarrow> getProp s1 r t' \<noteq> JRef a" using uniq same by simp
      with obj2[OF uin, of a] same[OF uin] g call1[of a] av keep show ?thesis by simp
    qed
  qed
  from run A B C D E F G H show ?case by blast
qed

lemma initialInv_old:
  assumes "initialInv s0 input s" "b < length s0"
  shows "s ! b = s0 ! b"
proof -
  have "take (length s0) s ! b = s ! b" using assms(2) by simp
  then show ?thesis using assms(1) by (simp add: initialInv_def)
qed

lemma initialInv_input:
  assumes "initialInv s0 input s"
  shows "propsOf s input = propsOf s0 input" "getProp s input k = getProp s0 input k"
proof -
  have i: "input < length s0" "length s0 < length s" using assms by (simp_all add: initialInv_def)
  show "propsOf s input = propsOf s0 input"
    using i initialInv_old[OF assms i(1)] by (simp add: propsOf_def)
  then show "getProp s input k = getProp s0 input k" by (simp add: getProp_def)
qed

lemma keys_setProp:
  "a < length s \<Longrightarrow>
   map fst (propsOf (setProp s a k v) a) =
     (if k \<in> fst ` set (propsOf s a) then map fst (propsOf s a) else map fst (propsOf s a) @ [k])"
  by (simp add: propsOf_setProp keys_update)

lemma keyset_setProp:
  "a < length s \<Longrightarrow> fst ` set (propsOf (setProp s a k v) a) = insert k (fst ` set (propsOf s a))"
  using keys_setProp[of a s k v] by (auto simp flip: set_map split: if_splits)

lemma distinct_keys_setProp:
  "distinct (map fst (propsOf s a)) \<Longrightarrow> distinct (map fst (propsOf (setProp s a k v) a))"
  by (auto simp: propsOf_setProp distinct_update)

lemma wellFormedInput_value:
  assumes "wellFormedInput s input" "k \<in> fst ` set (propsOf s input)"
  shows "routeValue s input (getProp s input k)"
proof -
  from assms(2) obtain v where kv: "(k, v) \<in> set (propsOf s input)" by auto
  have "map_of (propsOf s input) k = Some v"
    using assms(1) kv by (intro map_of_is_SomeI) (simp_all add: wellFormedInput_def)
  then have "getProp s input k = v" by (simp add: getProp_def)
  moreover have "routeValue s input v"
    using assms(1) kv by (auto simp: wellFormedInput_def list_all_iff)
  ultimately show ?thesis by simp
qed

lemma wellFormedInput_ref:
  assumes "wellFormedInput s input" "getProp s input k = JRef b"
  shows "b < length s \<and> b \<noteq> input"
proof -
  have "k \<in> fst ` set (propsOf s input)" using assms(2) by (intro getProp_in_keys) simp
  from wellFormedInput_value[OF assms(1) this] assms(2) show ?thesis
    by (simp add: routeValue_def)
qed

lemma take_setProp: "n \<le> a \<Longrightarrow> take n (setProp s a k v) = take n s"
  by (simp add: setProp_def)

text \<open>\<^verbatim>\<open>routes[k] = input[k]\<close> for a key of the input.\<close>

lemma initialInv_assign:
  assumes inv: "initialInv s0 input s" and wf: "wellFormedInput s0 input"
    and k: "k \<in> fst ` set (propsOf s0 input)"
  shows "initialInv s0 input (setProp s (length s0) k (getProp s0 input k))"
proof -
  let ?r = "length s0"
  let ?s' = "setProp s ?r k (getProp s0 input k)"
  have r: "?r < length s" and i: "input < ?r" using inv by (simp_all add: initialInv_def)
  have g: "getProp ?s' ?r k' = (if k' = k then getProp s0 input k else getProp s ?r k')" for k'
    using r by (simp add: getProp_setProp)
  have entries: "\<forall>k1\<in>fst ` set (propsOf ?s' ?r).
            (k1 \<in> fst ` set (propsOf s0 input) \<and> getProp ?s' ?r k1 = getProp s0 input k1)
            \<or> (\<exists>b. getProp ?s' ?r k1 = JRef b \<and> ?r < b \<and> b < length ?s'
                  \<and> (\<forall>k'. getProp ?s' ?r k' = JRef b \<longrightarrow> k' = k1))"
  proof
    fix k1 assume "k1 \<in> fst ` set (propsOf ?s' ?r)"
    then have k1: "k1 = k \<or> k1 \<in> fst ` set (propsOf s ?r)" using r by (simp add: keyset_setProp)
    show "(k1 \<in> fst ` set (propsOf s0 input) \<and> getProp ?s' ?r k1 = getProp s0 input k1)
            \<or> (\<exists>b. getProp ?s' ?r k1 = JRef b \<and> ?r < b \<and> b < length ?s'
                  \<and> (\<forall>k'. getProp ?s' ?r k' = JRef b \<longrightarrow> k' = k1))"
    proof (cases "k1 = k")
      case True
      then show ?thesis using k g by simp
    next
      case False
      then have in1: "k1 \<in> fst ` set (propsOf s ?r)" using k1 by simp
      have "(k1 \<in> fst ` set (propsOf s0 input) \<and> getProp s ?r k1 = getProp s0 input k1)
            \<or> (\<exists>b. getProp s ?r k1 = JRef b \<and> ?r < b \<and> b < length s
                  \<and> (\<forall>k'. getProp s ?r k' = JRef b \<longrightarrow> k' = k1))"
        using inv in1 unfolding initialInv_def by (elim conjE) (erule bspec)
      then show ?thesis
      proof
        assume "k1 \<in> fst ` set (propsOf s0 input) \<and> getProp s ?r k1 = getProp s0 input k1"
        then show ?thesis using False g by simp
      next
        assume "\<exists>b. getProp s ?r k1 = JRef b \<and> ?r < b \<and> b < length s
                  \<and> (\<forall>k'. getProp s ?r k' = JRef b \<longrightarrow> k' = k1)"
        then obtain b where b: "getProp s ?r k1 = JRef b" "?r < b" "b < length s"
            "\<forall>k'. getProp s ?r k' = JRef b \<longrightarrow> k' = k1" by blast
        have ne: "getProp s0 input k \<noteq> JRef b"
          using wellFormedInput_ref[OF wf, of k b] b(2) by auto
        have g1: "getProp ?s' ?r k1 = JRef b" using g[of k1] False b(1) by simp
        have u1: "k' = k1" if "getProp ?s' ?r k' = JRef b" for k'
        proof (cases "k' = k")
          case True
          then show ?thesis using that g[of k'] ne by simp
        next
          case False
          then have "getProp s ?r k' = JRef b" using that g[of k'] by simp
          then show ?thesis using b(4) by blast
        qed
        have u1': "\<forall>k'. getProp ?s' ?r k' = JRef b \<longrightarrow> k' = k1" using u1 by blast
        have len: "b < length ?s'" using b(3) by simp
        show ?thesis by (intro disjI2 exI[of _ b] conjI g1 b(2) len u1')
      qed
    qed
  qed
  have c1: "take ?r ?s' = s0" using inv by (simp add: take_setProp initialInv_def)
  have c2: "\<forall>b. ?r < b \<and> b < length ?s' \<longrightarrow> \<not> callable (?s' ! b)"
    using inv by (simp add: initialInv_def)
  have c3: "distinct (map fst (propsOf ?s' ?r))"
    using inv by (intro distinct_keys_setProp) (simp add: initialInv_def)
  have r': "?r < length ?s'" using r by simp
  show ?thesis
    unfolding initialInv_def by (intro conjI i r' c1 c2 c3 entries)
qed

lemma propsOf_append_old: "a < length s \<Longrightarrow> propsOf (s @ [c]) a = propsOf s a"
  by (simp add: propsOf_append)

lemma initialInv_entry:
  assumes "initialInv s0 input s" "k \<in> fst ` set (propsOf s (length s0))"
  shows "(k \<in> fst ` set (propsOf s0 input) \<and> getProp s (length s0) k = getProp s0 input k)
       \<or> (\<exists>b. getProp s (length s0) k = JRef b \<and> length s0 < b \<and> b < length s
             \<and> (\<forall>k'. getProp s (length s0) k' = JRef b \<longrightarrow> k' = k))"
  using assms unfolding initialInv_def by (elim conjE) (erule bspec)

text \<open>\<^verbatim>\<open>routes[k] = { ... }\<close>, a new object.\<close>

lemma initialInv_fresh:
  assumes inv: "initialInv s0 input s" and wf: "wellFormedInput s0 input"
  shows "initialInv s0 input
           (setProp (s @ [\<lparr>callable = False, props = ps\<rparr>]) (length s0) k (JRef (length s)))"
proof -
  let ?r = "length s0"
  let ?c = "\<lparr>callable = False, props = ps\<rparr>"
  let ?s' = "setProp (s @ [?c]) ?r k (JRef (length s))"
  have r: "?r < length s" and i: "input < ?r" using inv by (simp_all add: initialInv_def)
  have g: "getProp ?s' ?r k' = (if k' = k then JRef (length s) else getProp s ?r k')" for k'
    using r by (simp add: getProp_setProp getProp_append_old)
  have keyset: "fst ` set (propsOf ?s' ?r) = insert k (fst ` set (propsOf s ?r))"
    using r by (simp add: keyset_setProp propsOf_append_old)
  have below: "b < length s" if "getProp s ?r k' = JRef b" for k' b
  proof -
    have in1: "k' \<in> fst ` set (propsOf s ?r)" using that by (intro getProp_in_keys) simp
    from initialInv_entry[OF inv in1] show ?thesis
    proof
      assume a: "k' \<in> fst ` set (propsOf s0 input) \<and> getProp s ?r k' = getProp s0 input k'"
      then have "getProp s0 input k' = JRef b" using that by simp
      then have "b < length s0" using wellFormedInput_ref[OF wf] by blast
      then show ?thesis using r by simp
    next
      assume "\<exists>b. getProp s ?r k' = JRef b \<and> ?r < b \<and> b < length s
                  \<and> (\<forall>k''. getProp s ?r k'' = JRef b \<longrightarrow> k'' = k')"
      then show ?thesis using that by auto
    qed
  qed
  have entries: "\<forall>k1\<in>fst ` set (propsOf ?s' ?r).
            (k1 \<in> fst ` set (propsOf s0 input) \<and> getProp ?s' ?r k1 = getProp s0 input k1)
            \<or> (\<exists>b. getProp ?s' ?r k1 = JRef b \<and> ?r < b \<and> b < length ?s'
                  \<and> (\<forall>k'. getProp ?s' ?r k' = JRef b \<longrightarrow> k' = k1))"
  proof
    fix k1 assume "k1 \<in> fst ` set (propsOf ?s' ?r)"
    then have k1: "k1 = k \<or> k1 \<in> fst ` set (propsOf s ?r)" using keyset by simp
    show "(k1 \<in> fst ` set (propsOf s0 input) \<and> getProp ?s' ?r k1 = getProp s0 input k1)
            \<or> (\<exists>b. getProp ?s' ?r k1 = JRef b \<and> ?r < b \<and> b < length ?s'
                  \<and> (\<forall>k'. getProp ?s' ?r k' = JRef b \<longrightarrow> k' = k1))"
    proof (cases "k1 = k")
      case True
      have g1: "getProp ?s' ?r k1 = JRef (length s)" using g[of k1] True by simp
      have len: "length s < length ?s'" by simp
      have u: "\<forall>k'. getProp ?s' ?r k' = JRef (length s) \<longrightarrow> k' = k1"
      proof (intro allI impI)
        fix k' assume h: "getProp ?s' ?r k' = JRef (length s)"
        show "k' = k1"
        proof (rule ccontr)
          assume "k' \<noteq> k1"
          then have "getProp s ?r k' = JRef (length s)" using h g[of k'] True by simp
          from below[OF this] show False by simp
        qed
      qed
      show ?thesis by (intro disjI2 exI[of _ "length s"] conjI g1 r len u)
    next
      case False
      then have in1: "k1 \<in> fst ` set (propsOf s ?r)" using k1 by simp
      from initialInv_entry[OF inv in1] show ?thesis
      proof
        assume "k1 \<in> fst ` set (propsOf s0 input) \<and> getProp s ?r k1 = getProp s0 input k1"
        then show ?thesis using False g[of k1] by simp
      next
        assume "\<exists>b. getProp s ?r k1 = JRef b \<and> ?r < b \<and> b < length s
                  \<and> (\<forall>k'. getProp s ?r k' = JRef b \<longrightarrow> k' = k1)"
        then obtain b where b: "getProp s ?r k1 = JRef b" "?r < b" "b < length s"
            "\<forall>k'. getProp s ?r k' = JRef b \<longrightarrow> k' = k1" by blast
        have g1: "getProp ?s' ?r k1 = JRef b" using g[of k1] False b(1) by simp
        have u1: "\<forall>k'. getProp ?s' ?r k' = JRef b \<longrightarrow> k' = k1"
        proof (intro allI impI)
          fix k' assume h: "getProp ?s' ?r k' = JRef b"
          have "k' \<noteq> k" using h g[of k'] b(3) by auto
          then have "getProp s ?r k' = JRef b" using h g[of k'] by simp
          then show "k' = k1" using b(4) by blast
        qed
        have len: "b < length ?s'" using b(3) by simp
        show ?thesis by (intro disjI2 exI[of _ b] conjI g1 b(2) len u1)
      qed
    qed
  qed
  have c1: "take ?r ?s' = s0" using inv r by (simp add: take_setProp initialInv_def)
  have c2: "\<forall>b. ?r < b \<and> b < length ?s' \<longrightarrow> \<not> callable (?s' ! b)"
  proof (intro allI impI)
    fix b assume b: "?r < b \<and> b < length ?s'"
    show "\<not> callable (?s' ! b)"
    proof (cases "b < length s")
      case True
      then show ?thesis using inv b by (simp add: initialInv_def nth_append)
    next
      case False
      then have "b = length s" using b by simp
      then show ?thesis by simp
    qed
  qed
  have c3: "distinct (map fst (propsOf ?s' ?r))"
  proof (rule distinct_keys_setProp)
    show "distinct (map fst (propsOf (s @ [?c]) ?r))"
      using inv r by (simp add: propsOf_append_old initialInv_def)
  qed
  have r': "?r < length ?s'" using r by simp
  show ?thesis
    unfolding initialInv_def by (intro conjI i r' c1 c2 c3 entries)
qed

lemma initialInv_start:
  assumes "input < length s"
  shows "initialInv s input (s @ [\<lparr>callable = False, props = []\<rparr>])"
  using assms by (auto simp: initialInv_def propsOf_def)

lemma truthy_defined: "truthy v \<Longrightarrow> v \<noteq> JUndefined"
  by (auto simp: truthy_def)

lemma setDefault_cases:
  "setDefault r input k ps s =
     (if truthy (getProp s input k) then setProp s r k (getProp s input k)
      else setProp (s @ [\<lparr>callable = False, props = ps\<rparr>]) r k (JRef (length s)))"
  by (simp add: setDefault_def orDefault_def alloc_def)

lemma initialInv_setDefault:
  assumes inv: "initialInv s0 input s" and wf: "wellFormedInput s0 input"
  shows "initialInv s0 input (setDefault (length s0) input k ps s)"
proof (cases "truthy (getProp s input k)")
  case True
  have e: "getProp s input k = getProp s0 input k" using initialInv_input(2)[OF inv] .
  have "k \<in> fst ` set (propsOf s0 input)"
    using True e truthy_defined by (intro getProp_in_keys) auto
  from initialInv_assign[OF inv wf this] True e show ?thesis by (simp add: setDefault_cases)
next
  case False
  from initialInv_fresh[OF inv wf] False show ?thesis by (simp add: setDefault_cases)
qed

lemma set_ownKeys [simp]: "set (ownKeys ps) = fst ` set ps"
  by (auto simp: ownKeys_def)

lemma distinct_ownKeys: "distinct (map fst ps) \<Longrightarrow> distinct (ownKeys ps)"
  by (auto simp: ownKeys_def)

lemma ownKeys_cong: "map fst ps = map fst qs \<Longrightarrow> ownKeys ps = ownKeys qs"
  by (simp add: ownKeys_def)

lemma ownKeys_first:
  assumes "map fst ps = k0 # rest" "\<not> isArrayIndex k0"
  shows "ownKeys ps =
     sort_key decimal (filter isArrayIndex rest) @ k0 # filter (\<lambda>k. \<not> isArrayIndex k) rest"
  using assms by (simp add: ownKeys_def)

lemma NOT_FOUND_not_index: "\<not> isArrayIndex ''NOT_FOUND''"
  by (simp add: isArrayIndex_def isDigit_def)

lemma assignAll:
  assumes "initialInv s0 input s" "wellFormedInput s0 input"
    "set ks \<subseteq> fst ` set (propsOf s0 input)"
  shows "initialInv s0 input (fold (\<lambda>k s'. setProp s' (length s0) k (getProp s' input k)) ks s)
    \<and> length (fold (\<lambda>k s'. setProp s' (length s0) k (getProp s' input k)) ks s) = length s
    \<and> (\<forall>K. getProp (fold (\<lambda>k s'. setProp s' (length s0) k (getProp s' input k)) ks s) (length s0) K
            = (if K \<in> set ks then getProp s0 input K else getProp s (length s0) K))
    \<and> (\<forall>b. b \<noteq> length s0 \<longrightarrow>
            fold (\<lambda>k s'. setProp s' (length s0) k (getProp s' input k)) ks s ! b = s ! b)
    \<and> (\<exists>extra. map fst (propsOf (fold (\<lambda>k s'. setProp s' (length s0) k (getProp s' input k)) ks s)
                         (length s0))
                 = map fst (propsOf s (length s0)) @ extra \<and> set extra \<subseteq> set ks)
    \<and> set ks \<subseteq> fst ` set (propsOf (fold (\<lambda>k s'. setProp s' (length s0) k (getProp s' input k)) ks s)
                         (length s0))"
  using assms
proof (induction ks arbitrary: s)
  case Nil
  then show ?case by simp
next
  case (Cons k ks)
  let ?f = "\<lambda>k s'. setProp s' (length s0) k (getProp s' input k)"
  let ?s1 = "setProp s (length s0) k (getProp s0 input k)"
  have r: "length s0 < length s" using Cons.prems(1) by (simp add: initialInv_def)
  have e: "getProp s input k = getProp s0 input k" using initialInv_input(2)[OF Cons.prems(1)] .
  have kin: "k \<in> fst ` set (propsOf s0 input)" using Cons.prems(3) by simp
  have inv1: "initialInv s0 input ?s1" using initialInv_assign[OF Cons.prems(1,2) kin] .
  have sub: "set ks \<subseteq> fst ` set (propsOf s0 input)" using Cons.prems(3) by simp
  have f1: "fold ?f (k # ks) s = fold ?f ks ?s1" using e by simp
  note ih = Cons.IH[OF inv1 Cons.prems(2) sub]
  have g1: "getProp ?s1 (length s0) K = (if K = k then getProp s0 input k else getProp s (length s0) K)" for K
    using r by (simp add: getProp_setProp)
  have A: "initialInv s0 input (fold ?f (k # ks) s)" unfolding f1 using ih by blast
  have B: "length (fold ?f (k # ks) s) = length s" unfolding f1 using ih by simp
  have C: "\<forall>K. getProp (fold ?f (k # ks) s) (length s0) K
            = (if K \<in> set (k # ks) then getProp s0 input K else getProp s (length s0) K)"
  proof
    fix K
    have "getProp (fold ?f ks ?s1) (length s0) K
            = (if K \<in> set ks then getProp s0 input K else getProp ?s1 (length s0) K)"
      using ih by blast
    then show "getProp (fold ?f (k # ks) s) (length s0) K
            = (if K \<in> set (k # ks) then getProp s0 input K else getProp s (length s0) K)"
      unfolding f1 using g1[of K] by auto
  qed
  have D: "\<forall>b. b \<noteq> length s0 \<longrightarrow> fold ?f (k # ks) s ! b = s ! b"
  proof (intro allI impI)
    fix b assume b: "b \<noteq> length s0"
    have "fold ?f ks ?s1 ! b = ?s1 ! b" using ih b by blast
    then show "fold ?f (k # ks) s ! b = s ! b" unfolding f1 using b by (simp add: nth_setProp_other)
  qed
  from ih obtain extra where
    ex: "map fst (propsOf (fold ?f ks ?s1) (length s0)) = map fst (propsOf ?s1 (length s0)) @ extra"
      "set extra \<subseteq> set ks" by blast
  have E: "\<exists>extra. map fst (propsOf (fold ?f (k # ks) s) (length s0))
                 = map fst (propsOf s (length s0)) @ extra \<and> set extra \<subseteq> set (k # ks)"
  proof (cases "k \<in> fst ` set (propsOf s (length s0))")
    case True
    then have "map fst (propsOf ?s1 (length s0)) = map fst (propsOf s (length s0))"
      using r by (simp add: keys_setProp)
    then show ?thesis unfolding f1 using ex by auto
  next
    case False
    then have "map fst (propsOf ?s1 (length s0)) = map fst (propsOf s (length s0)) @ [k]"
      using r by (simp add: keys_setProp)
    then have "map fst (propsOf (fold ?f ks ?s1) (length s0))
         = map fst (propsOf s (length s0)) @ (k # extra)" using ex(1) by simp
    moreover have "set (k # extra) \<subseteq> set (k # ks)" using ex(2) by auto
    ultimately show ?thesis unfolding f1 by blast
  qed
  have F: "set (k # ks) \<subseteq> fst ` set (propsOf (fold ?f (k # ks) s) (length s0))"
  proof -
    have "k \<in> fst ` set (propsOf ?s1 (length s0))" using r by (simp add: keyset_setProp)
    then have "k \<in> set (map fst (propsOf ?s1 (length s0)))" by simp
    then have "k \<in> set (map fst (propsOf (fold ?f ks ?s1) (length s0)))"
      unfolding ex(1) by simp
    moreover have "set ks \<subseteq> fst ` set (propsOf (fold ?f ks ?s1) (length s0))" using ih by blast
    ultimately show ?thesis unfolding f1 by simp
  qed
  from A B C D E F show ?case by blast
qed

lemma getProp_absent: "k \<notin> fst ` set (propsOf s a) \<Longrightarrow> getProp s a k = JUndefined"
proof -
  assume "k \<notin> fst ` set (propsOf s a)"
  then have "map_of (propsOf s a) k = None" by (simp add: map_of_eq_None_iff)
  then show ?thesis by (simp add: getProp_def)
qed

lemma setDefault_summary:
  assumes inv: "initialInv s0 input s" and wf: "wellFormedInput s0 input"
  shows "initialInv s0 input (setDefault (length s0) input k ps s)
    \<and> length s \<le> length (setDefault (length s0) input k ps s)
    \<and> (\<forall>K. getProp (setDefault (length s0) input k ps s) (length s0) K =
          (if K = k then (if truthy (getProp s0 input k) then getProp s0 input k
                         else JRef (length s))
           else getProp s (length s0) K))
    \<and> (\<forall>b<length s. b \<noteq> length s0 \<longrightarrow> setDefault (length s0) input k ps s ! b = s ! b)
    \<and> map fst (propsOf (setDefault (length s0) input k ps s) (length s0)) =
         (if k \<in> fst ` set (propsOf s (length s0)) then map fst (propsOf s (length s0))
          else map fst (propsOf s (length s0)) @ [k])
    \<and> (\<not> truthy (getProp s0 input k) \<longrightarrow>
          length s < length (setDefault (length s0) input k ps s)
          \<and> setDefault (length s0) input k ps s ! length s = \<lparr>callable = False, props = ps\<rparr>)"
proof -
  let ?r = "length s0"
  have r: "?r < length s" using inv by (simp add: initialInv_def)
  have e: "getProp s input k = getProp s0 input k" using initialInv_input(2)[OF inv] .
  have A: "initialInv s0 input (setDefault ?r input k ps s)"
    using initialInv_setDefault[OF inv wf] .
  show ?thesis
  proof (cases "truthy (getProp s0 input k)")
    case True
    then have d: "setDefault ?r input k ps s = setProp s ?r k (getProp s0 input k)"
      using e by (simp add: setDefault_cases)
    show ?thesis
      using A True r unfolding d
      by (simp add: getProp_setProp nth_setProp_other keys_setProp)
  next
    case False
    then have d: "setDefault ?r input k ps s
        = setProp (s @ [\<lparr>callable = False, props = ps\<rparr>]) ?r k (JRef (length s))"
      using e by (simp add: setDefault_cases)
    have k1: "map fst (propsOf (setProp (s @ [\<lparr>callable = False, props = ps\<rparr>]) ?r k (JRef (length s))) ?r)
        = (if k \<in> fst ` set (propsOf s ?r) then map fst (propsOf s ?r)
           else map fst (propsOf s ?r) @ [k])"
      using r keys_setProp[of ?r "s @ [\<lparr>callable = False, props = ps\<rparr>]" k "JRef (length s)"]
      by (simp add: propsOf_append_old)
    have n1: "setProp (s @ [\<lparr>callable = False, props = ps\<rparr>]) ?r k (JRef (length s)) ! length s
        = \<lparr>callable = False, props = ps\<rparr>"
      using r by (simp add: nth_setProp_other)
    have fr: "\<forall>b<length s. b \<noteq> ?r \<longrightarrow>
        setProp (s @ [\<lparr>callable = False, props = ps\<rparr>]) ?r k (JRef (length s)) ! b = s ! b"
      by (simp add: nth_setProp_other nth_append)
    have gp: "\<forall>K. getProp (setProp (s @ [\<lparr>callable = False, props = ps\<rparr>]) ?r k (JRef (length s))) ?r K
        = (if K = k then JRef (length s) else getProp s ?r K)"
      using r by (simp add: getProp_setProp getProp_append_old)
    show ?thesis
      using A False unfolding d
      by (intro conjI) (simp_all add: k1 n1 fr gp)
  qed
qed

lemma setDefaults_fold:
  assumes "initialInv s0 input s" "wellFormedInput s0 input"
  shows "initialInv s0 input (fold (\<lambda>kp. setDefault (length s0) input (fst kp) (snd kp)) kps s)
    \<and> length s \<le> length (fold (\<lambda>kp. setDefault (length s0) input (fst kp) (snd kp)) kps s)
    \<and> (\<exists>extra. map fst (propsOf (fold (\<lambda>kp. setDefault (length s0) input (fst kp) (snd kp)) kps s)
                         (length s0))
                 = map fst (propsOf s (length s0)) @ extra \<and> set extra \<subseteq> fst ` set kps)
    \<and> fst ` set kps \<subseteq>
         fst ` set (propsOf (fold (\<lambda>kp. setDefault (length s0) input (fst kp) (snd kp)) kps s)
                      (length s0))
    \<and> (\<forall>K. K \<notin> fst ` set kps \<or> (truthy (getProp s0 input K) \<and> getProp s0 input K = getProp s (length s0) K)
          \<longrightarrow> getProp (fold (\<lambda>kp. setDefault (length s0) input (fst kp) (snd kp)) kps s) (length s0) K
              = getProp s (length s0) K)
    \<and> (\<forall>b<length s. b \<noteq> length s0 \<longrightarrow>
          fold (\<lambda>kp. setDefault (length s0) input (fst kp) (snd kp)) kps s ! b = s ! b)"
  using assms
proof (induction kps arbitrary: s)
  case Nil
  then show ?case by simp
next
  case (Cons kp kps)
  let ?r = "length s0"
  let ?f = "\<lambda>kp. setDefault ?r input (fst kp) (snd kp)"
  let ?s1 = "setDefault ?r input (fst kp) (snd kp) s"
  note sd = setDefault_summary[OF Cons.prems(1,2), of "fst kp" "snd kp"]
  have inv1: "initialInv s0 input ?s1" using sd by blast
  have len1: "length s \<le> length ?s1" using sd by blast
  have g1: "getProp ?s1 ?r K =
          (if K = fst kp then (if truthy (getProp s0 input (fst kp)) then getProp s0 input (fst kp)
                         else JRef (length s))
           else getProp s ?r K)" for K using sd by blast
  have fr1: "?s1 ! b = s ! b" if "b < length s" "b \<noteq> ?r" for b using sd that by blast
  have k1: "map fst (propsOf ?s1 ?r) =
         (if fst kp \<in> fst ` set (propsOf s ?r) then map fst (propsOf s ?r)
          else map fst (propsOf s ?r) @ [fst kp])" using sd by blast
  note ih = Cons.IH[OF inv1 Cons.prems(2)]
  have f1: "fold ?f (kp # kps) s = fold ?f kps ?s1" by simp
  have A: "initialInv s0 input (fold ?f (kp # kps) s)" unfolding f1 using ih by blast
  have B: "length s \<le> length (fold ?f (kp # kps) s)"
  proof -
    have "length ?s1 \<le> length (fold ?f kps ?s1)" using ih by blast
    then show ?thesis unfolding f1 using len1 by simp
  qed
  from ih obtain extra where
    ex: "map fst (propsOf (fold ?f kps ?s1) ?r) = map fst (propsOf ?s1 ?r) @ extra"
      "set extra \<subseteq> fst ` set kps" by blast
  have C: "\<exists>extra. map fst (propsOf (fold ?f (kp # kps) s) ?r)
                 = map fst (propsOf s ?r) @ extra \<and> set extra \<subseteq> fst ` set (kp # kps)"
  proof (cases "fst kp \<in> fst ` set (propsOf s ?r)")
    case True
    then have "map fst (propsOf (fold ?f kps ?s1) ?r) = map fst (propsOf s ?r) @ extra"
      using ex(1) k1 by simp
    moreover have "set extra \<subseteq> fst ` set (kp # kps)" using ex(2) by auto
    ultimately show ?thesis unfolding f1 by blast
  next
    case False
    then have "map fst (propsOf (fold ?f kps ?s1) ?r) = map fst (propsOf s ?r) @ (fst kp # extra)"
      using ex(1) k1 by simp
    moreover have "set (fst kp # extra) \<subseteq> fst ` set (kp # kps)" using ex(2) by auto
    ultimately show ?thesis unfolding f1 by blast
  qed
  have D: "fst ` set (kp # kps) \<subseteq> fst ` set (propsOf (fold ?f (kp # kps) s) ?r)"
  proof -
    have "fst kp \<in> set (map fst (propsOf ?s1 ?r))" using k1 by (auto split: if_splits)
    then have "fst kp \<in> set (map fst (propsOf (fold ?f kps ?s1) ?r))" unfolding ex(1) by simp
    moreover have "fst ` set kps \<subseteq> fst ` set (propsOf (fold ?f kps ?s1) ?r)" using ih by blast
    ultimately show ?thesis unfolding f1 by simp
  qed
  have E: "\<forall>K. K \<notin> fst ` set (kp # kps)
             \<or> (truthy (getProp s0 input K) \<and> getProp s0 input K = getProp s ?r K)
          \<longrightarrow> getProp (fold ?f (kp # kps) s) ?r K = getProp s ?r K"
  proof (intro allI impI)
    fix K assume h: "K \<notin> fst ` set (kp # kps)
             \<or> (truthy (getProp s0 input K) \<and> getProp s0 input K = getProp s ?r K)"
    have e1: "getProp ?s1 ?r K = getProp s ?r K" using h g1[of K] by auto
    have "K \<notin> fst ` set kps
             \<or> (truthy (getProp s0 input K) \<and> getProp s0 input K = getProp ?s1 ?r K)"
      using h e1 by auto
    then have "getProp (fold ?f kps ?s1) ?r K = getProp ?s1 ?r K" using ih by blast
    then show "getProp (fold ?f (kp # kps) s) ?r K = getProp s ?r K" unfolding f1 using e1 by simp
  qed
  have F: "\<forall>b<length s. b \<noteq> ?r \<longrightarrow> fold ?f (kp # kps) s ! b = s ! b"
  proof (intro allI impI)
    fix b assume b: "b < length s" "b \<noteq> ?r"
    then have "b < length ?s1" using len1 by simp
    then have "fold ?f kps ?s1 ! b = ?s1 ! b" using ih b(2) by blast
    then show "fold ?f (kp # kps) s ! b = s ! b" unfolding f1 using fr1[OF b] by simp
  qed
  from A B C D E F show ?case by blast
qed

lemma initialRoutes_facts:
  assumes wf: "wellFormedInput s input"
  shows "\<exists>s7. initialRoutes T input s = (length s, s7)
    \<and> initialInv s input s7
    \<and> (\<exists>rest. map fst (propsOf s7 (length s)) = ''NOT_FOUND'' # rest)
    \<and> fst ` set (propsOf s7 (length s))
         = insert ''NOT_FOUND'' (fst ` set (propsOf s input) \<union> set (maintenanceTypes T))
    \<and> (\<forall>K\<in>fst ` set (propsOf s input).
          K \<notin> set (maintenanceTypes T) \<or> truthy (getProp s input K)
          \<longrightarrow> getProp s7 (length s) K = getProp s input K)
    \<and> (''NOT_FOUND'' \<notin> fst ` set (propsOf s input) \<and> ''NOT_FOUND'' \<notin> set (maintenanceTypes T)
          \<longrightarrow> getProp s7 (length s) ''NOT_FOUND'' = JRef (Suc (length s))
            \<and> s7 ! Suc (length s) = \<lparr>callable = False, props = [(''path'', JStr ''/not-found'')]\<rparr>)"
proof -
  let ?r = "length s"
  define sa where "sa = s @ [\<lparr>callable = False, props = []\<rparr>]"
  define s1 where "s1 = setDefault ?r input ''NOT_FOUND'' [(''path'', JStr ''/not-found'')] sa"
  define ks where "ks = ownKeys (propsOf s input)"
  define s2 where "s2 = fold (\<lambda>k s'. setProp s' ?r k (getProp s' input k)) ks s1"
  define kps where "kps =
     [(ADD_ROUTES T, [(''thunk'', addRoutes T), (''dispatch'', JBool False)]),
      (CHANGE_BASENAME T, [(''thunk'', changeBasename T), (''dispatch'', JBool False)]),
      (CLEAR_CACHE T, [(''thunk'', clearCache T)]),
      (CONFIRM T, [(''thunk'', confirm T), (''dispatch'', JBool False)]),
      (CALL_HISTORY T, [(''thunk'', callHistory T), (''dispatch'', JBool False)])]"
  define s7 where "s7 = fold (\<lambda>kp. setDefault ?r input (fst kp) (snd kp)) kps s2"
  have i: "input < ?r" using wf by (simp add: wellFormedInput_def)
  have inva: "initialInv s input sa" unfolding sa_def using i by (rule initialInv_start)
  have lena: "length sa = Suc ?r" by (simp add: sa_def)
  have keysa: "propsOf sa ?r = []" by (simp add: sa_def propsOf_append)
  note sd1 = setDefault_summary[OF inva wf, of "''NOT_FOUND''" "[(''path'', JStr ''/not-found'')]",
      folded s1_def]
  have inv1: "initialInv s input s1" using sd1 by blast
  have keys1: "map fst (propsOf s1 ?r) = [''NOT_FOUND'']" using sd1 keysa by simp
  have in1: "propsOf s1 input = propsOf s input" using initialInv_input(1)[OF inv1] .
  have ksset: "set ks = fst ` set (propsOf s input)" by (simp add: ks_def)
  have oa: "objectAssign s1 ?r input = s2" by (simp add: objectAssign_def s2_def ks_def in1)
  have ksub: "set ks \<subseteq> fst ` set (propsOf s input)" using ksset by simp
  note as = assignAll[OF inv1 wf ksub, folded s2_def]
  have inv2: "initialInv s input s2" using as by blast
  have len2: "length s2 = length s1" using as by blast
  have g2: "getProp s2 ?r K = (if K \<in> set ks then getProp s input K else getProp s1 ?r K)" for K
    using as by blast
  have fr2: "s2 ! b = s1 ! b" if "b \<noteq> ?r" for b using as that by blast
  from as obtain extra2 where ex2: "map fst (propsOf s2 ?r) = map fst (propsOf s1 ?r) @ extra2"
    "set extra2 \<subseteq> set ks" by blast
  have sub2: "set ks \<subseteq> fst ` set (propsOf s2 ?r)" using as by blast
  note df = setDefaults_fold[OF inv2 wf, of kps, folded s7_def]
  have inv7: "initialInv s input s7" using df by blast
  from df obtain extra7 where ex7: "map fst (propsOf s7 ?r) = map fst (propsOf s2 ?r) @ extra7"
    "set extra7 \<subseteq> fst ` set kps" by blast
  have sub7: "fst ` set kps \<subseteq> fst ` set (propsOf s7 ?r)" using df by blast
  have g7: "getProp s7 ?r K = getProp s2 ?r K"
    if "K \<notin> fst ` set kps \<or> (truthy (getProp s input K) \<and> getProp s input K = getProp s2 ?r K)" for K
    using df that by blast
  have fr7: "s7 ! b = s2 ! b" if "b < length s2" "b \<noteq> ?r" for b using df that by blast
  have mt: "fst ` set kps = set (maintenanceTypes T)" by (simp add: kps_def maintenanceTypes_def)
  have run: "initialRoutes T input s = (?r, s7)"
    by (simp add: initialRoutes_def alloc_def Let_def s7_def kps_def oa[symmetric] s1_def sa_def)
  have keys7: "map fst (propsOf s7 ?r) = ''NOT_FOUND'' # (extra2 @ extra7)"
    using ex7(1) ex2(1) keys1 by simp
  have first: "\<exists>rest. map fst (propsOf s7 ?r) = ''NOT_FOUND'' # rest" by (rule exI[of _ "extra2 @ extra7"]) (rule keys7)
  have keyset: "fst ` set (propsOf s7 ?r)
         = insert ''NOT_FOUND'' (fst ` set (propsOf s input) \<union> set (maintenanceTypes T))"
  proof -
    have a: "set (map fst (propsOf s7 ?r)) = insert ''NOT_FOUND'' (set extra2 \<union> set extra7)"
      unfolding keys7 by simp
    have b: "set (map fst (propsOf s2 ?r)) = insert ''NOT_FOUND'' (set extra2)"
      unfolding ex2(1) keys1 by simp
    have c: "fst ` set (propsOf s input) \<subseteq> insert ''NOT_FOUND'' (set extra2)"
      using sub2 b ksset by simp
    have d: "set (maintenanceTypes T) \<subseteq> insert ''NOT_FOUND'' (set extra2 \<union> set extra7)"
      using sub7 a mt by simp
    have e: "set extra2 \<subseteq> fst ` set (propsOf s input)" using ex2(2) ksset by simp
    have f: "set extra7 \<subseteq> set (maintenanceTypes T)" using ex7(2) mt by simp
    have "fst ` set (propsOf s7 ?r) = insert ''NOT_FOUND'' (set extra2 \<union> set extra7)"
      using a by simp
    also have "\<dots> = insert ''NOT_FOUND'' (fst ` set (propsOf s input) \<union> set (maintenanceTypes T))"
      using c d e f by blast
    finally show ?thesis .
  qed
  have user: "\<forall>K\<in>fst ` set (propsOf s input).
          K \<notin> set (maintenanceTypes T) \<or> truthy (getProp s input K)
          \<longrightarrow> getProp s7 ?r K = getProp s input K"
  proof (intro ballI impI)
    fix K assume K: "K \<in> fst ` set (propsOf s input)"
      and h: "K \<notin> set (maintenanceTypes T) \<or> truthy (getProp s input K)"
    have e2: "getProp s2 ?r K = getProp s input K" using g2[of K] K ksset by simp
    have "getProp s7 ?r K = getProp s2 ?r K" using h e2 mt by (intro g7) auto
    then show "getProp s7 ?r K = getProp s input K" using e2 by simp
  qed
  have nf: "getProp s7 ?r ''NOT_FOUND'' = JRef (Suc ?r)
            \<and> s7 ! Suc ?r = \<lparr>callable = False, props = [(''path'', JStr ''/not-found'')]\<rparr>"
    if h: "''NOT_FOUND'' \<notin> fst ` set (propsOf s input) \<and> ''NOT_FOUND'' \<notin> set (maintenanceTypes T)"
  proof -
    have u: "getProp s input ''NOT_FOUND'' = JUndefined" using h by (intro getProp_absent) simp
    then have nt: "\<not> truthy (getProp s input ''NOT_FOUND'')" by (simp add: truthy_def)
    have e1: "getProp s1 ?r ''NOT_FOUND'' = JRef (Suc ?r)" using sd1 nt lena by simp
    have c1: "length sa < length s1 \<and> s1 ! length sa = \<lparr>callable = False, props = [(''path'', JStr ''/not-found'')]\<rparr>"
      using sd1 nt by blast
    have e2: "getProp s2 ?r ''NOT_FOUND'' = JRef (Suc ?r)" using g2[of "''NOT_FOUND''"] h ksset e1 by simp
    have e7: "getProp s7 ?r ''NOT_FOUND'' = JRef (Suc ?r)" using g7[of "''NOT_FOUND''"] h mt e2 by simp
    have "s7 ! Suc ?r = s2 ! Suc ?r" using c1 lena len2 by (intro fr7) simp_all
    also have "\<dots> = s1 ! Suc ?r" by (intro fr2) simp
    finally have "s7 ! Suc ?r = \<lparr>callable = False, props = [(''path'', JStr ''/not-found'')]\<rparr>"
      using c1 lena by simp
    with e7 show ?thesis by simp
  qed
  have nf': "''NOT_FOUND'' \<notin> fst ` set (propsOf s input) \<and> ''NOT_FOUND'' \<notin> set (maintenanceTypes T)
          \<longrightarrow> getProp s7 ?r ''NOT_FOUND'' = JRef (Suc ?r)
            \<and> s7 ! Suc ?r = \<lparr>callable = False, props = [(''path'', JStr ''/not-found'')]\<rparr>"
    by (rule impI) (rule nf)
  show ?thesis by (intro exI[of _ s7] conjI run inv7 first keyset user nf')
qed

lemma objectRefs_mem:
  "a \<in> set (objectRefs s ps) \<longleftrightarrow> (\<exists>k. (k, JRef a) \<in> set ps \<and> \<not> isFunction s (JRef a))"
proof (induction ps)
  case Nil
  then show ?case by simp
next
  case (Cons kv ps)
  obtain k v where kv: "kv = (k, v)" by (cases kv)
  show ?case unfolding kv using Cons.IH by (cases v) auto
qed

lemma objectRefs_unique:
  assumes "distinct (objectRefs s ps)" "(k1, JRef a) \<in> set ps" "(k2, JRef a) \<in> set ps"
    "\<not> isFunction s (JRef a)" "distinct (map fst ps)"
  shows "k1 = k2"
  using assms
proof (induction ps)
  case Nil
  then show ?case by simp
next
  case (Cons kv ps)
  obtain k v where kv: "kv = (k, v)" by (cases kv)
  have d: "distinct (objectRefs s ps)" using Cons.prems(1) unfolding kv by (cases v) (auto split: if_splits)
  have dk: "distinct (map fst ps)" and kn: "k \<notin> fst ` set ps" using Cons.prems(5) unfolding kv by auto
  show ?case
  proof (cases "(k1, JRef a) \<in> set ps \<and> (k2, JRef a) \<in> set ps")
    case True
    then show ?thesis using Cons.IH[OF d _ _ Cons.prems(4) dk] by blast
  next
    case False
    then have hd: "kv = (k1, JRef a) \<or> kv = (k2, JRef a)" using Cons.prems(2,3) by auto
    then have v: "v = JRef a" using kv by auto
    have "a \<notin> set (objectRefs s ps)" using Cons.prems(1,4) unfolding kv v by simp
    then have no: "\<And>k'. (k', JRef a) \<notin> set ps" using objectRefs_mem[of a s ps] Cons.prems(4) by blast
    show ?thesis using Cons.prems(2,3) no kv v by auto
  qed
qed

lemma in_props_getProp:
  assumes "distinct (map fst (propsOf s a))" "getProp s a k = v" "v \<noteq> JUndefined"
  shows "(k, v) \<in> set (propsOf s a)"
  using assms by (auto simp: getProp_def split: option.splits dest: map_of_SomeD)

lemma unshared_unique:
  assumes "unshared s input" "wellFormedInput s input"
    "getProp s input k1 = JRef a" "getProp s input k2 = JRef a" "\<not> callable (s ! a)"
  shows "k1 = k2"
proof -
  have d: "distinct (map fst (propsOf s input))" using assms(2) by (simp add: wellFormedInput_def)
  have 1: "(k1, JRef a) \<in> set (propsOf s input)" using in_props_getProp[OF d assms(3)] by simp
  have 2: "(k2, JRef a) \<in> set (propsOf s input)" using in_props_getProp[OF d assms(4)] by simp
  have "\<not> isFunction s (JRef a)" using assms(5) by (simp add: isFunction_def)
  from objectRefs_unique[OF _ 1 2 this d] assms(1) show ?thesis by (simp add: unshared_def)
qed

lemma initialInv_routeValue:
  assumes inv: "initialInv s0 input s" and wf: "wellFormedInput s0 input"
    and k: "k \<in> fst ` set (propsOf s (length s0))"
  shows "routeValue s (length s0) (getProp s (length s0) k)"
proof -
  have r: "length s0 < length s" using inv by (simp add: initialInv_def)
  from initialInv_entry[OF inv k] show ?thesis
  proof
    assume a: "k \<in> fst ` set (propsOf s0 input) \<and> getProp s (length s0) k = getProp s0 input k"
    then have "routeValue s0 input (getProp s0 input k)" using wellFormedInput_value[OF wf] by blast
    then have "routeValue s (length s0) (getProp s0 input k)"
      using r by (cases "getProp s0 input k") (auto simp: routeValue_def)
    then show ?thesis using a by simp
  next
    assume "\<exists>b. getProp s (length s0) k = JRef b \<and> length s0 < b \<and> b < length s
                  \<and> (\<forall>k'. getProp s (length s0) k' = JRef b \<longrightarrow> k' = k)"
    then obtain b where "getProp s (length s0) k = JRef b" "length s0 < b" "b < length s"
      by blast
    then show ?thesis by (simp add: routeValue_def)
  qed
qed

lemma initialInv_unique:
  assumes inv: "initialInv s0 input s" and wf: "wellFormedInput s0 input"
    and un: "length s0 < a \<or> unshared s0 input"
    and g1: "getProp s (length s0) k1 = JRef a" and g2: "getProp s (length s0) k2 = JRef a"
    and nc: "\<not> callable (s ! a)"
  shows "k1 = k2"
proof -
  have in1: "k1 \<in> fst ` set (propsOf s (length s0))" using g1 by (intro getProp_in_keys) simp
  have in2: "k2 \<in> fst ` set (propsOf s (length s0))" using g2 by (intro getProp_in_keys) simp
  from initialInv_entry[OF inv in1] show ?thesis
  proof
    assume "\<exists>b. getProp s (length s0) k1 = JRef b \<and> length s0 < b \<and> b < length s
                  \<and> (\<forall>k'. getProp s (length s0) k' = JRef b \<longrightarrow> k' = k1)"
    then obtain b where b: "getProp s (length s0) k1 = JRef b"
      "\<forall>k'. getProp s (length s0) k' = JRef b \<longrightarrow> k' = k1" by blast
    have "b = a" using b(1) g1 by simp
    then have "getProp s (length s0) k2 = JRef b" using g2 by simp
    then have "k2 = k1" using b(2) by blast
    then show ?thesis by simp
  next
    assume a1: "k1 \<in> fst ` set (propsOf s0 input) \<and> getProp s (length s0) k1 = getProp s0 input k1"
    then have "getProp s0 input k1 = JRef a" using g1 by metis
    then have old: "a < length s0" using wellFormedInput_ref[OF wf, of k1 a] by blast
    from initialInv_entry[OF inv in2] show ?thesis
    proof
      assume "\<exists>b. getProp s (length s0) k2 = JRef b \<and> length s0 < b \<and> b < length s
                  \<and> (\<forall>k'. getProp s (length s0) k' = JRef b \<longrightarrow> k' = k2)"
      then obtain b where b: "getProp s (length s0) k2 = JRef b"
        "\<forall>k'. getProp s (length s0) k' = JRef b \<longrightarrow> k' = k2" by blast
      have "b = a" using b(1) g2 by simp
      then have "getProp s (length s0) k1 = JRef b" using g1 by simp
      then show ?thesis using b(2) by blast
    next
      assume a2: "k2 \<in> fst ` set (propsOf s0 input) \<and> getProp s (length s0) k2 = getProp s0 input k2"
      have c: "\<not> callable (s0 ! a)" using nc initialInv_old[OF inv old] by simp
      have u: "unshared s0 input" using un old by auto
      have e1: "getProp s0 input k1 = JRef a" using a1 g1 by metis
      have e2: "getProp s0 input k2 = JRef a" using a2 g2 by metis
      show ?thesis using u wf e1 e2 c by (rule unshared_unique)
    qed
  qed
qed

lemma formatAll_keys:
  assumes r: "r < length s" and d: "distinct (map fst (propsOf s r))"
    and v: "\<forall>t\<in>fst ` set (propsOf s r). routeValue s r (getProp s r t)"
  shows "\<exists>s'. formatAll None r ia (ownKeys (propsOf s r)) s = Inr s'
      \<and> length s \<le> length s'
      \<and> map fst (propsOf s' r) = map fst (propsOf s r)
      \<and> (\<forall>t p. getProp s r t = JStr p \<longrightarrow>
            (\<exists>a<length s'. getProp s' r t = JRef a
              \<and> s' ! a = \<lparr>callable = False, props = [(''path'', JStr p), (''type'', JStr t)]\<rparr>))
      \<and> (\<forall>t a. getProp s r t = JRef a \<and> callable (s ! a) \<longrightarrow>
            (\<exists>a'<length s'. getProp s' r t = JRef a'
              \<and> s' ! a' = \<lparr>callable = False, props = [(''thunk'', JRef a), (''type'', JStr t)]\<rparr>))
      \<and> (\<forall>t a. getProp s r t = JRef a \<and> \<not> callable (s ! a) \<longrightarrow>
            getProp s' r t = JRef a
            \<and> ((\<forall>t'. getProp s r t' = JRef a \<longrightarrow> t' = t) \<longrightarrow>
                s' ! a = (s ! a)\<lparr>props := AList.update ''type'' (JStr t) (props (s ! a))\<rparr>))"
proof -
  let ?ts = "ownKeys (propsOf s r)"
  have dts: "distinct ?ts" using d by (rule distinct_ownKeys)
  have vts: "\<forall>t\<in>set ?ts. routeValue s r (getProp s r t)" using v by simp
  from formatAll_None[OF r dts vts, of ia] obtain s' where big: "formatAll None r ia ?ts s = Inr s'
      \<and> length s \<le> length s'
      \<and> map fst (propsOf s' r) = map fst (propsOf s r)
      \<and> (\<forall>k. k \<notin> set ?ts \<longrightarrow> getProp s' r k = getProp s r k)
      \<and> (\<forall>b<length s. callable (s' ! b) = callable (s ! b))
      \<and> (\<forall>b<length s. b \<noteq> r \<longrightarrow> (\<forall>t\<in>set ?ts. getProp s r t = JRef b \<longrightarrow> callable (s ! b))
            \<longrightarrow> s' ! b = s ! b)
      \<and> (\<forall>t\<in>set ?ts. \<forall>p. getProp s r t = JStr p \<longrightarrow>
            (\<exists>a. length s \<le> a \<and> a < length s' \<and> getProp s' r t = JRef a
              \<and> s' ! a = \<lparr>callable = False, props = [(''path'', JStr p), (''type'', JStr t)]\<rparr>))
      \<and> (\<forall>t\<in>set ?ts. \<forall>a. getProp s r t = JRef a \<and> callable (s ! a) \<longrightarrow>
            (\<exists>a'. length s \<le> a' \<and> a' < length s' \<and> getProp s' r t = JRef a'
              \<and> s' ! a' = \<lparr>callable = False, props = [(''thunk'', JRef a), (''type'', JStr t)]\<rparr>))
      \<and> (\<forall>t\<in>set ?ts. \<forall>a. getProp s r t = JRef a \<and> \<not> callable (s ! a) \<longrightarrow>
            getProp s' r t = JRef a
            \<and> ((\<forall>t'\<in>set ?ts. t' \<noteq> t \<longrightarrow> getProp s r t' \<noteq> JRef a) \<longrightarrow>
                s' ! a = (s ! a)\<lparr>props := AList.update ''type'' (JStr t) (props (s ! a))\<rparr>))" ..
  have key: "t \<in> set ?ts" if "getProp s r t \<noteq> JUndefined" for t
    using getProp_in_keys[OF that] by simp
  have A: "formatAll None r ia ?ts s = Inr s'" using big by (rule conjunct1)
  note big = big[THEN conjunct2]
  have B: "length s \<le> length s'" using big by (rule conjunct1)
  note big = big[THEN conjunct2]
  have C: "map fst (propsOf s' r) = map fst (propsOf s r)" using big by (rule conjunct1)
  note big = big[THEN conjunct2, THEN conjunct2, THEN conjunct2, THEN conjunct2]
  have D: "\<forall>t p. getProp s r t = JStr p \<longrightarrow>
            (\<exists>a<length s'. getProp s' r t = JRef a
              \<and> s' ! a = \<lparr>callable = False, props = [(''path'', JStr p), (''type'', JStr t)]\<rparr>)"
  proof (intro allI impI)
    fix t p assume g: "getProp s r t = JStr p"
    then have "t \<in> set ?ts" by (intro key) simp
    with big[THEN conjunct1] g show "\<exists>a<length s'. getProp s' r t = JRef a
              \<and> s' ! a = \<lparr>callable = False, props = [(''path'', JStr p), (''type'', JStr t)]\<rparr>"
      by blast
  qed
  note big = big[THEN conjunct2]
  have E: "\<forall>t a. getProp s r t = JRef a \<and> callable (s ! a) \<longrightarrow>
            (\<exists>a'<length s'. getProp s' r t = JRef a'
              \<and> s' ! a' = \<lparr>callable = False, props = [(''thunk'', JRef a), (''type'', JStr t)]\<rparr>)"
  proof (intro allI impI)
    fix t a assume g: "getProp s r t = JRef a \<and> callable (s ! a)"
    then have "t \<in> set ?ts" by (intro key) simp
    with big[THEN conjunct1] g show "\<exists>a'<length s'. getProp s' r t = JRef a'
              \<and> s' ! a' = \<lparr>callable = False, props = [(''thunk'', JRef a), (''type'', JStr t)]\<rparr>"
      by blast
  qed
  note big = big[THEN conjunct2]
  have F: "\<forall>t a. getProp s r t = JRef a \<and> \<not> callable (s ! a) \<longrightarrow>
            getProp s' r t = JRef a
            \<and> ((\<forall>t'. getProp s r t' = JRef a \<longrightarrow> t' = t) \<longrightarrow>
                s' ! a = (s ! a)\<lparr>props := AList.update ''type'' (JStr t) (props (s ! a))\<rparr>)"
  proof (intro allI impI)
    fix t a assume g: "getProp s r t = JRef a \<and> \<not> callable (s ! a)"
    then have "t \<in> set ?ts" by (intro key) simp
    with big g have x: "getProp s' r t = JRef a
            \<and> ((\<forall>t'\<in>set ?ts. t' \<noteq> t \<longrightarrow> getProp s r t' \<noteq> JRef a) \<longrightarrow>
                s' ! a = (s ! a)\<lparr>props := AList.update ''type'' (JStr t) (props (s ! a))\<rparr>)"
      by blast
    show "getProp s' r t = JRef a
            \<and> ((\<forall>t'. getProp s r t' = JRef a \<longrightarrow> t' = t) \<longrightarrow>
                s' ! a = (s ! a)\<lparr>props := AList.update ''type'' (JStr t) (props (s ! a))\<rparr>)"
    proof (intro conjI impI)
      show "getProp s' r t = JRef a" using x by (rule conjunct1)
    next
      assume u: "\<forall>t'. getProp s r t' = JRef a \<longrightarrow> t' = t"
      then have "\<forall>t'\<in>set ?ts. t' \<noteq> t \<longrightarrow> getProp s r t' \<noteq> JRef a" by blast
      with x show "s' ! a = (s ! a)\<lparr>props := AList.update ''type'' (JStr t) (props (s ! a))\<rparr>"
        by blast
    qed
  qed
  show ?thesis by (intro exI[of _ s'] conjI A B C D E F)
qed

text \<open>After the loop every record carries its key as type, if no other entry holds it.\<close>

lemma typeField_after:
  assumes r: "r < length s" and d: "distinct (map fst (propsOf s r))"
    and v: "\<forall>t\<in>fst ` set (propsOf s r). routeValue s r (getProp s r t)"
  shows "\<exists>s'. formatAll None r ia (ownKeys (propsOf s r)) s = Inr s'
      \<and> ownKeys (propsOf s' r) = ownKeys (propsOf s r)
      \<and> (\<forall>t\<in>fst ` set (propsOf s r).
            (\<forall>a t'. getProp s r t = JRef a \<and> \<not> callable (s ! a) \<and> getProp s r t' = JRef a
               \<longrightarrow> t' = t)
            \<longrightarrow> typeField s' (getProp s' r t) = JStr t)
      \<and> (\<forall>t a. getProp s r t = JRef a \<and> \<not> callable (s ! a)
               \<and> (\<forall>t'. getProp s r t' = JRef a \<longrightarrow> t' = t)
            \<longrightarrow> propsOf s' a = AList.update ''type'' (JStr t) (propsOf s a))
      \<and> (\<forall>t a. getProp s r t = JRef a \<and> \<not> callable (s ! a) \<longrightarrow> getProp s' r t = JRef a)
      \<and> (\<forall>t p. getProp s r t = JStr p \<longrightarrow>
            (\<exists>a. getProp s' r t = JRef a
               \<and> propsOf s' a = [(''path'', JStr p), (''type'', JStr t)]))"
proof -
  from formatAll_keys[OF r d v, of ia] obtain s' where
    A: "formatAll None r ia (ownKeys (propsOf s r)) s = Inr s'"
    and B: "length s \<le> length s'"
    and C: "map fst (propsOf s' r) = map fst (propsOf s r)"
    and D: "\<forall>t p. getProp s r t = JStr p \<longrightarrow>
            (\<exists>a<length s'. getProp s' r t = JRef a
              \<and> s' ! a = \<lparr>callable = False, props = [(''path'', JStr p), (''type'', JStr t)]\<rparr>)"
    and E: "\<forall>t a. getProp s r t = JRef a \<and> callable (s ! a) \<longrightarrow>
            (\<exists>a'<length s'. getProp s' r t = JRef a'
              \<and> s' ! a' = \<lparr>callable = False, props = [(''thunk'', JRef a), (''type'', JStr t)]\<rparr>)"
    and F: "\<forall>t a. getProp s r t = JRef a \<and> \<not> callable (s ! a) \<longrightarrow>
            getProp s' r t = JRef a
            \<and> ((\<forall>t'. getProp s r t' = JRef a \<longrightarrow> t' = t) \<longrightarrow>
                s' ! a = (s ! a)\<lparr>props := AList.update ''type'' (JStr t) (props (s ! a))\<rparr>)"
    by (elim exE conjE)
  have K: "ownKeys (propsOf s' r) = ownKeys (propsOf s r)" using C by (rule ownKeys_cong)
  have T: "\<forall>t\<in>fst ` set (propsOf s r).
            (\<forall>a t'. getProp s r t = JRef a \<and> \<not> callable (s ! a) \<and> getProp s r t' = JRef a
               \<longrightarrow> t' = t)
            \<longrightarrow> typeField s' (getProp s' r t) = JStr t"
  proof (intro ballI impI)
    fix t assume t: "t \<in> fst ` set (propsOf s r)"
      and u: "\<forall>a t'. getProp s r t = JRef a \<and> \<not> callable (s ! a) \<and> getProp s r t' = JRef a
               \<longrightarrow> t' = t"
    from v t have "routeValue s r (getProp s r t)" by blast
    then show "typeField s' (getProp s' r t) = JStr t"
    proof (cases rule: routeValue_cases)
      case (str p)
      with D obtain a where "a < length s'" "getProp s' r t = JRef a"
        "s' ! a = \<lparr>callable = False, props = [(''path'', JStr p), (''type'', JStr t)]\<rparr>" by blast
      then show ?thesis by (simp add: typeField_def getProp_def propsOf_def)
    next
      case (func a)
      with E obtain a' where "a' < length s'" "getProp s' r t = JRef a'"
        "s' ! a' = \<lparr>callable = False, props = [(''thunk'', JRef a), (''type'', JStr t)]\<rparr>" by blast
      then show ?thesis by (simp add: typeField_def getProp_def propsOf_def)
    next
      case (obj a)
      have uq: "\<forall>t'. getProp s r t' = JRef a \<longrightarrow> t' = t" using u obj by blast
      from F obj uq have g: "getProp s' r t = JRef a"
        and c: "s' ! a = (s ! a)\<lparr>props := AList.update ''type'' (JStr t) (props (s ! a))\<rparr>"
        by blast+
      have "a < length s'" using obj B by simp
      then show ?thesis using g c by (simp add: typeField_def getProp_def propsOf_def update_conv')
    qed
  qed
  have O: "\<forall>t a. getProp s r t = JRef a \<and> \<not> callable (s ! a) \<longrightarrow> getProp s' r t = JRef a"
    using F by blast
  have S: "\<forall>t p. getProp s r t = JStr p \<longrightarrow>
            (\<exists>a. getProp s' r t = JRef a \<and> propsOf s' a = [(''path'', JStr p), (''type'', JStr t)])"
  proof (intro allI impI)
    fix t p assume "getProp s r t = JStr p"
    with D obtain a where "a < length s'" "getProp s' r t = JRef a"
        "s' ! a = \<lparr>callable = False, props = [(''path'', JStr p), (''type'', JStr t)]\<rparr>" by blast
    then show "\<exists>a. getProp s' r t = JRef a \<and> propsOf s' a = [(''path'', JStr p), (''type'', JStr t)]"
      by (intro exI[of _ a]) (simp add: propsOf_def)
  qed
  have U: "\<forall>t a. getProp s r t = JRef a \<and> \<not> callable (s ! a)
               \<and> (\<forall>t'. getProp s r t' = JRef a \<longrightarrow> t' = t)
            \<longrightarrow> propsOf s' a = AList.update ''type'' (JStr t) (propsOf s a)"
  proof (intro allI impI)
    fix t a assume h: "getProp s r t = JRef a \<and> \<not> callable (s ! a)
               \<and> (\<forall>t'. getProp s r t' = JRef a \<longrightarrow> t' = t)"
    have tk: "t \<in> fst ` set (propsOf s r)" using h by (intro getProp_in_keys) simp
    from v tk have "routeValue s r (getProp s r t)" by blast
    then have a: "a < length s" using h by (simp add: routeValue_def)
    from F h have "s' ! a = (s ! a)\<lparr>props := AList.update ''type'' (JStr t) (props (s ! a))\<rparr>"
      by blast
    then show "propsOf s' a = AList.update ''type'' (JStr t) (propsOf s a)"
      using a B by (simp add: propsOf_def)
  qed
  show ?thesis by (intro exI[of _ s'] conjI A K T U O S)
qed

lemma registry_keys: "map fst (registry s a) = ownKeys (propsOf s a)"
  by (simp add: registry_def comp_def)

lemma formatRoutes_add:
  "formatRoutes T fm input True s =
     (case formatAll fm input True (ownKeys (propsOf s input)) s of
        Inl e \<Rightarrow> Inl e | Inr s' \<Rightarrow> Inr (input, s'))"
  by (simp add: formatRoutes_def)

lemma formatRoutes_initial:
  "initialRoutes T input s = (r, sp) \<Longrightarrow>
   formatRoutes T fm input False s =
     (case formatAll fm r False (ownKeys (propsOf sp r)) sp of
        Inl e \<Rightarrow> Inl e | Inr s' \<Rightarrow> Inr (r, s'))"
  by (simp add: formatRoutes_def)

text \<open>What a build without formatter yields, from the state before the loop.\<close>

lemma build_add:
  assumes wf: "wellFormedInput s input"
  shows "\<exists>s'. formatRoutes T None input True s = Inr (input, s')
      \<and> ownKeys (propsOf s' input) = ownKeys (propsOf s input)
      \<and> (\<forall>t\<in>fst ` set (propsOf s input).
            (\<forall>a t'. getProp s input t = JRef a \<and> \<not> callable (s ! a) \<and> getProp s input t' = JRef a
               \<longrightarrow> t' = t)
            \<longrightarrow> typeField s' (getProp s' input t) = JStr t)"
proof -
  have r: "input < length s" and d: "distinct (map fst (propsOf s input))"
    using wf by (simp_all add: wellFormedInput_def)
  have v: "\<forall>t\<in>fst ` set (propsOf s input). routeValue s input (getProp s input t)"
    using wellFormedInput_value[OF wf] by blast
  from typeField_after[OF r d v, of True] obtain s' where
    A: "formatAll None input True (ownKeys (propsOf s input)) s = Inr s'"
    and K: "ownKeys (propsOf s' input) = ownKeys (propsOf s input)"
    and T: "\<forall>t\<in>fst ` set (propsOf s input).
            (\<forall>a t'. getProp s input t = JRef a \<and> \<not> callable (s ! a) \<and> getProp s input t' = JRef a
               \<longrightarrow> t' = t)
            \<longrightarrow> typeField s' (getProp s' input t) = JStr t"
    by (elim exE conjE)
  have run: "formatRoutes T None input True s = Inr (input, s')"
    using A by (simp add: formatRoutes_add)
  show ?thesis by (intro exI[of _ s'] conjI run K T)
qed

lemma build_initial:
  assumes wf: "wellFormedInput s input"
  shows "\<exists>s7 s'. initialRoutes T input s = (length s, s7)
      \<and> initialInv s input s7
      \<and> (\<exists>rest. map fst (propsOf s7 (length s)) = ''NOT_FOUND'' # rest)
      \<and> fst ` set (propsOf s7 (length s))
           = insert ''NOT_FOUND'' (fst ` set (propsOf s input) \<union> set (maintenanceTypes T))
      \<and> (\<forall>K\<in>fst ` set (propsOf s input).
            K \<notin> set (maintenanceTypes T) \<or> truthy (getProp s input K)
            \<longrightarrow> getProp s7 (length s) K = getProp s input K)
      \<and> (''NOT_FOUND'' \<notin> fst ` set (propsOf s input) \<and> ''NOT_FOUND'' \<notin> set (maintenanceTypes T)
            \<longrightarrow> getProp s7 (length s) ''NOT_FOUND'' = JRef (Suc (length s))
              \<and> s7 ! Suc (length s) = \<lparr>callable = False, props = [(''path'', JStr ''/not-found'')]\<rparr>)
      \<and> formatRoutes T None input False s = Inr (length s, s')
      \<and> map fst (propsOf s' (length s)) = map fst (propsOf s7 (length s))
      \<and> (\<forall>t\<in>fst ` set (propsOf s7 (length s)).
            (\<forall>a t'. getProp s7 (length s) t = JRef a \<and> \<not> callable (s7 ! a)
                     \<and> getProp s7 (length s) t' = JRef a \<longrightarrow> t' = t)
            \<longrightarrow> typeField s' (getProp s' (length s) t) = JStr t)
      \<and> (\<forall>t a. getProp s7 (length s) t = JRef a \<and> \<not> callable (s7 ! a)
               \<and> (\<forall>t'. getProp s7 (length s) t' = JRef a \<longrightarrow> t' = t)
            \<longrightarrow> propsOf s' a = AList.update ''type'' (JStr t) (propsOf s7 a))
      \<and> (\<forall>t a. getProp s7 (length s) t = JRef a \<and> \<not> callable (s7 ! a)
            \<longrightarrow> getProp s' (length s) t = JRef a)"
proof -
  let ?r = "length s"
  from initialRoutes_facts[OF wf, of T] obtain s7 rest where
    run7: "initialRoutes T input s = (?r, s7)"
    and inv: "initialInv s input s7"
    and first0: "map fst (propsOf s7 ?r) = ''NOT_FOUND'' # rest"
    and keyset: "fst ` set (propsOf s7 ?r)
           = insert ''NOT_FOUND'' (fst ` set (propsOf s input) \<union> set (maintenanceTypes T))"
    and user: "\<forall>K\<in>fst ` set (propsOf s input).
            K \<notin> set (maintenanceTypes T) \<or> truthy (getProp s input K)
            \<longrightarrow> getProp s7 ?r K = getProp s input K"
    and nf: "''NOT_FOUND'' \<notin> fst ` set (propsOf s input) \<and> ''NOT_FOUND'' \<notin> set (maintenanceTypes T)
            \<longrightarrow> getProp s7 ?r ''NOT_FOUND'' = JRef (Suc ?r)
              \<and> s7 ! Suc ?r = \<lparr>callable = False, props = [(''path'', JStr ''/not-found'')]\<rparr>"
    by (elim exE conjE)
  have first: "\<exists>rest. map fst (propsOf s7 ?r) = ''NOT_FOUND'' # rest"
    by (rule exI[of _ rest]) (rule first0)
  have r: "?r < length s7" and d: "distinct (map fst (propsOf s7 ?r))"
    using inv by (simp_all add: initialInv_def)
  have v: "\<forall>t\<in>fst ` set (propsOf s7 ?r). routeValue s7 ?r (getProp s7 ?r t)"
    using initialInv_routeValue[OF inv wf] by blast
  from typeField_after[OF r d v, of False] obtain s' where
    A: "formatAll None ?r False (ownKeys (propsOf s7 ?r)) s7 = Inr s'"
    and K: "ownKeys (propsOf s' ?r) = ownKeys (propsOf s7 ?r)"
    and T: "\<forall>t\<in>fst ` set (propsOf s7 ?r).
            (\<forall>a t'. getProp s7 ?r t = JRef a \<and> \<not> callable (s7 ! a)
                     \<and> getProp s7 ?r t' = JRef a \<longrightarrow> t' = t)
            \<longrightarrow> typeField s' (getProp s' ?r t) = JStr t"
    and U: "\<forall>t a. getProp s7 ?r t = JRef a \<and> \<not> callable (s7 ! a)
               \<and> (\<forall>t'. getProp s7 ?r t' = JRef a \<longrightarrow> t' = t)
            \<longrightarrow> propsOf s' a = AList.update ''type'' (JStr t) (propsOf s7 a)"
    and O: "\<forall>t a. getProp s7 ?r t = JRef a \<and> \<not> callable (s7 ! a)
            \<longrightarrow> getProp s' ?r t = JRef a"
    by (elim exE conjE)
  from formatAll_keys[OF r d v, of False] A
  have M: "map fst (propsOf s' ?r) = map fst (propsOf s7 ?r)" by auto
  have run: "formatRoutes T None input False s = Inr (?r, s')"
    using A by (simp add: formatRoutes_initial[OF run7])
  show ?thesis by (intro exI[of _ s7] exI[of _ s'] conjI run7 inv first keyset user nf run M T U O)
qed

subsection \<open>The entries of the registry\<close>

lemma update_fresh: "k \<notin> fst ` set ps \<Longrightarrow> AList.update k v ps = ps @ [(k, v)]"
  by (induction ps) auto

lemma maintenanceRoutes_keys: "map fst (maintenanceRoutes T) = maintenanceTypes T"
  by (simp add: maintenanceRoutes_def maintenanceTypes_def)

lemma maintenanceRoutes_no_type:
  "kp \<in> set (maintenanceRoutes T) \<Longrightarrow> ''type'' \<notin> fst ` set (snd kp)"
  by (auto simp: maintenanceRoutes_def)

lemma setDefaults_records:
  assumes "initialInv s0 input s" "wellFormedInput s0 input" "distinct (map fst kps)"
    "kp \<in> set kps" "\<not> truthy (getProp s0 input (fst kp))"
  shows "\<exists>b. length s \<le> b
      \<and> b < length (fold (\<lambda>kp. setDefault (length s0) input (fst kp) (snd kp)) kps s)
      \<and> getProp (fold (\<lambda>kp. setDefault (length s0) input (fst kp) (snd kp)) kps s) (length s0) (fst kp)
          = JRef b
      \<and> fold (\<lambda>kp. setDefault (length s0) input (fst kp) (snd kp)) kps s ! b
          = \<lparr>callable = False, props = snd kp\<rparr>"
  using assms
proof (induction kps arbitrary: s)
  case Nil
  then show ?case by simp
next
  case (Cons q kps)
  let ?r = "length s0"
  let ?f = "\<lambda>kp. setDefault ?r input (fst kp) (snd kp)"
  let ?s1 = "setDefault ?r input (fst q) (snd q) s"
  note sd = setDefault_summary[OF Cons.prems(1,2), of "fst q" "snd q"]
  have inv1: "initialInv s0 input ?s1" using sd by (rule conjunct1)
  have len1: "length s \<le> length ?s1" using sd[THEN conjunct2] by (rule conjunct1)
  have r: "?r < length s" using Cons.prems(1) by (simp add: initialInv_def)
  have d': "distinct (map fst kps)" and qn: "fst q \<notin> fst ` set kps" using Cons.prems(3) by simp_all
  have f1: "fold ?f (q # kps) s = fold ?f kps ?s1" by simp
  note df = setDefaults_fold[OF inv1 Cons.prems(2), of kps]
  show ?case
  proof (cases "kp = q")
    case True
    have nt: "\<not> truthy (getProp s0 input (fst q))" using Cons.prems(5) True by simp
    have g1: "getProp ?s1 ?r (fst q) = JRef (length s)"
      using sd[THEN conjunct2, THEN conjunct2, THEN conjunct1] nt by simp
    have c1: "length s < length ?s1 \<and> ?s1 ! length s = \<lparr>callable = False, props = snd q\<rparr>"
      using sd[THEN conjunct2, THEN conjunct2, THEN conjunct2, THEN conjunct2, THEN conjunct2] nt
      by (rule mp)
    have B: "length ?s1 \<le> length (fold ?f kps ?s1)" using df[THEN conjunct2] by (rule conjunct1)
    have E: "\<forall>K. K \<notin> fst ` set kps \<or> (truthy (getProp s0 input K) \<and> getProp s0 input K = getProp ?s1 ?r K)
          \<longrightarrow> getProp (fold ?f kps ?s1) ?r K = getProp ?s1 ?r K"
      using df[THEN conjunct2, THEN conjunct2, THEN conjunct2, THEN conjunct2] by (rule conjunct1)
    have F: "\<forall>b<length ?s1. b \<noteq> ?r \<longrightarrow> fold ?f kps ?s1 ! b = ?s1 ! b"
      using df[THEN conjunct2, THEN conjunct2, THEN conjunct2, THEN conjunct2] by (rule conjunct2)
    have "fst q \<notin> fst ` set kps \<or> (truthy (getProp s0 input (fst q)) \<and> getProp s0 input (fst q) = getProp ?s1 ?r (fst q))"
      using qn by (rule disjI1)
    with E have "getProp (fold ?f kps ?s1) ?r (fst q) = getProp ?s1 ?r (fst q)" by blast
    then have g: "getProp (fold ?f kps ?s1) ?r (fst q) = JRef (length s)" using g1 by simp
    have "length s \<noteq> ?r" using r by simp
    with F c1 have "fold ?f kps ?s1 ! length s = ?s1 ! length s" by blast
    then have c: "fold ?f kps ?s1 ! length s = \<lparr>callable = False, props = snd q\<rparr>" using c1 by simp
    have l: "length s < length (fold ?f kps ?s1)" using c1 B by simp
    show ?thesis unfolding f1 True
      by (intro exI[of _ "length s"] conjI order_refl l g c)
  next
    case False
    then have m: "kp \<in> set kps" using Cons.prems(4) by simp
    from Cons.IH[OF inv1 Cons.prems(2) d' m Cons.prems(5)] obtain b where
      b: "length ?s1 \<le> b \<and> b < length (fold ?f kps ?s1)
        \<and> getProp (fold ?f kps ?s1) ?r (fst kp) = JRef b
        \<and> fold ?f kps ?s1 ! b = \<lparr>callable = False, props = snd kp\<rparr>" ..
    have l: "length s \<le> b" using b[THEN conjunct1] len1 by simp
    show ?thesis unfolding f1
      by (intro exI[of _ b] conjI l b[THEN conjunct2, THEN conjunct1]
          b[THEN conjunct2, THEN conjunct2, THEN conjunct1] b[THEN conjunct2, THEN conjunct2, THEN conjunct2])
  qed
qed

lemma initialRoutes_defaults:
  assumes wf: "wellFormedInput s input" and dm: "distinct (maintenanceTypes T)"
    and run7: "initialRoutes T input s = (r, s7)"
    and m: "kp \<in> set (maintenanceRoutes T)" and f: "\<not> truthy (getProp s input (fst kp))"
  shows "\<exists>b. length s < b \<and> b < length s7 \<and> getProp s7 (length s) (fst kp) = JRef b
      \<and> s7 ! b = \<lparr>callable = False, props = snd kp\<rparr>"
proof -
  let ?r = "length s"
  define sa where "sa = s @ [\<lparr>callable = False, props = []\<rparr>]"
  define s1 where "s1 = setDefault ?r input ''NOT_FOUND'' [(''path'', JStr ''/not-found'')] sa"
  define ks where "ks = ownKeys (propsOf s input)"
  define s2 where "s2 = fold (\<lambda>k s'. setProp s' ?r k (getProp s' input k)) ks s1"
  define t7 where "t7 = fold (\<lambda>kp. setDefault ?r input (fst kp) (snd kp)) (maintenanceRoutes T) s2"
  have i: "input < ?r" using wf by (simp add: wellFormedInput_def)
  have inva: "initialInv s input sa" unfolding sa_def using i by (rule initialInv_start)
  note sd1 = setDefault_summary[OF inva wf, of "''NOT_FOUND''" "[(''path'', JStr ''/not-found'')]",
      folded s1_def]
  have inv1: "initialInv s input s1" using sd1 by (rule conjunct1)
  have in1: "propsOf s1 input = propsOf s input" using initialInv_input(1)[OF inv1] .
  have oa: "objectAssign s1 ?r input = s2" by (simp add: objectAssign_def s2_def ks_def in1)
  have ksub: "set ks \<subseteq> fst ` set (propsOf s input)" by (simp add: ks_def)
  note as = assignAll[OF inv1 wf ksub, folded s2_def]
  have inv2: "initialInv s input s2" using as by (rule conjunct1)
  have l2: "?r < length s2" using inv2 by (simp add: initialInv_def)
  have "initialRoutes T input s = (?r, t7)"
    by (simp add: initialRoutes_def alloc_def Let_def t7_def maintenanceRoutes_def oa[symmetric]
        s1_def sa_def)
  then have e: "s7 = t7" using run7 by simp
  have d: "distinct (map fst (maintenanceRoutes T))" using dm by (simp add: maintenanceRoutes_keys)
  from setDefaults_records[OF inv2 wf d m f, folded t7_def] obtain b where
    b: "length s2 \<le> b \<and> b < length t7 \<and> getProp t7 ?r (fst kp) = JRef b
        \<and> t7 ! b = \<lparr>callable = False, props = snd kp\<rparr>" ..
  have l: "?r < b" using b[THEN conjunct1] l2 by simp
  show ?thesis unfolding e
    by (intro exI[of _ b] conjI l b[THEN conjunct2, THEN conjunct1]
        b[THEN conjunct2, THEN conjunct2, THEN conjunct1] b[THEN conjunct2, THEN conjunct2, THEN conjunct2])
qed

lemma loop_entries:
  assumes r: "r < length s" and d: "distinct (map fst (propsOf s r))"
    and v: "\<forall>t\<in>fst ` set (propsOf s r). routeValue s r (getProp s r t)"
    and run: "formatAll None r ia (ownKeys (propsOf s r)) s = Inr s'"
  shows "length s \<le> length s'"
    and "map fst (propsOf s' r) = map fst (propsOf s r)"
    and "getProp s r t = JStr p \<Longrightarrow>
          \<exists>a. getProp s' r t = JRef a \<and> propsOf s' a = [(''path'', JStr p), (''type'', JStr t)]"
    and "getProp s r t = JRef g \<Longrightarrow> callable (s ! g) \<Longrightarrow>
          \<exists>a. getProp s' r t = JRef a \<and> propsOf s' a = [(''thunk'', JRef g), (''type'', JStr t)]"
    and "getProp s r t = JRef b \<Longrightarrow> \<not> callable (s ! b) \<Longrightarrow> getProp s' r t = JRef b"
    and "getProp s r t = JRef b \<Longrightarrow> \<not> callable (s ! b) \<Longrightarrow>
          \<forall>t'. getProp s r t' = JRef b \<longrightarrow> t' = t \<Longrightarrow>
          propsOf s' b = AList.update ''type'' (JStr t) (propsOf s b)"
proof -
  from formatAll_keys[OF r d v, of ia] obtain s'' where
    A: "formatAll None r ia (ownKeys (propsOf s r)) s = Inr s''"
    and B: "length s \<le> length s''"
    and C: "map fst (propsOf s'' r) = map fst (propsOf s r)"
    and D: "\<forall>t p. getProp s r t = JStr p \<longrightarrow>
            (\<exists>a<length s''. getProp s'' r t = JRef a
              \<and> s'' ! a = \<lparr>callable = False, props = [(''path'', JStr p), (''type'', JStr t)]\<rparr>)"
    and E: "\<forall>t a. getProp s r t = JRef a \<and> callable (s ! a) \<longrightarrow>
            (\<exists>a'<length s''. getProp s'' r t = JRef a'
              \<and> s'' ! a' = \<lparr>callable = False, props = [(''thunk'', JRef a), (''type'', JStr t)]\<rparr>)"
    and F: "\<forall>t a. getProp s r t = JRef a \<and> \<not> callable (s ! a) \<longrightarrow>
            getProp s'' r t = JRef a
            \<and> ((\<forall>t'. getProp s r t' = JRef a \<longrightarrow> t' = t) \<longrightarrow>
                s'' ! a = (s ! a)\<lparr>props := AList.update ''type'' (JStr t) (props (s ! a))\<rparr>)"
    by (elim exE conjE)
  have e: "s'' = s'" using A run by simp
  show "length s \<le> length s'" using B e by simp
  show "map fst (propsOf s' r) = map fst (propsOf s r)" using C e by simp
  show "\<exists>a. getProp s' r t = JRef a \<and> propsOf s' a = [(''path'', JStr p), (''type'', JStr t)]"
    if "getProp s r t = JStr p"
  proof -
    from D that obtain a where "a < length s''" "getProp s'' r t = JRef a"
        "s'' ! a = \<lparr>callable = False, props = [(''path'', JStr p), (''type'', JStr t)]\<rparr>" by blast
    then show ?thesis unfolding e by (intro exI[of _ a]) (simp add: propsOf_def)
  qed
  show "\<exists>a. getProp s' r t = JRef a \<and> propsOf s' a = [(''thunk'', JRef g), (''type'', JStr t)]"
    if "getProp s r t = JRef g" "callable (s ! g)"
  proof -
    from E that obtain a where "a < length s''" "getProp s'' r t = JRef a"
        "s'' ! a = \<lparr>callable = False, props = [(''thunk'', JRef g), (''type'', JStr t)]\<rparr>" by blast
    then show ?thesis unfolding e by (intro exI[of _ a]) (simp add: propsOf_def)
  qed
  show "getProp s' r t = JRef b" if "getProp s r t = JRef b" "\<not> callable (s ! b)"
    using F that unfolding e by blast
  show "propsOf s' b = AList.update ''type'' (JStr t) (propsOf s b)"
    if h: "getProp s r t = JRef b" "\<not> callable (s ! b)" "\<forall>t'. getProp s r t' = JRef b \<longrightarrow> t' = t"
  proof -
    have tk: "t \<in> fst ` set (propsOf s r)" using h(1) by (intro getProp_in_keys) simp
    from v tk have "routeValue s r (getProp s r t)" by blast
    then have a: "b < length s" using h(1) by (simp add: routeValue_def)
    from F h have "s'' ! b = (s ! b)\<lparr>props := AList.update ''type'' (JStr t) (props (s ! b))\<rparr>"
      by blast
    then show ?thesis using a B unfolding e by (simp add: propsOf_def)
  qed
qed

lemma formatRoutes_add_run:
  assumes "formatRoutes T None input True s = Inr (r, s')"
  shows "r = input \<and> formatAll None input True (ownKeys (propsOf s input)) s = Inr s'"
  using assms by (simp add: formatRoutes_add split: sum.splits)

lemma formatRoutes_initial_run:
  assumes "initialRoutes T input s = (r0, s7)" "formatRoutes T None input False s = Inr (r, s')"
  shows "r = r0 \<and> formatAll None r0 False (ownKeys (propsOf s7 r0)) s7 = Inr s'"
  using assms(2) by (simp add: formatRoutes_initial[OF assms(1)] split: sum.splits)

lemma add_entries:
  assumes wf: "wellFormedInput s input" and run: "formatRoutes T None input True s = Inr (r, s')"
  shows "r = input"
    and "map fst (propsOf s' input) = map fst (propsOf s input)"
    and "getProp s input t = JStr p \<Longrightarrow>
          \<exists>a. getProp s' input t = JRef a \<and> propsOf s' a = [(''path'', JStr p), (''type'', JStr t)]"
    and "getProp s input t = JRef g \<Longrightarrow> callable (s ! g) \<Longrightarrow>
          \<exists>a. getProp s' input t = JRef a \<and> propsOf s' a = [(''thunk'', JRef g), (''type'', JStr t)]"
    and "getProp s input t = JRef b \<Longrightarrow> \<not> callable (s ! b) \<Longrightarrow> getProp s' input t = JRef b"
    and "getProp s input t = JRef b \<Longrightarrow> \<not> callable (s ! b) \<Longrightarrow>
          \<forall>t'. getProp s input t' = JRef b \<longrightarrow> t' = t \<Longrightarrow>
          propsOf s' b = AList.update ''type'' (JStr t) (propsOf s b)"
proof -
  have r: "input < length s" and d: "distinct (map fst (propsOf s input))"
    using wf by (simp_all add: wellFormedInput_def)
  have v: "\<forall>t\<in>fst ` set (propsOf s input). routeValue s input (getProp s input t)"
    using wellFormedInput_value[OF wf] by blast
  note fr = formatRoutes_add_run[OF run]
  note le = loop_entries[OF r d v fr[THEN conjunct2]]
  show "r = input" using fr by (rule conjunct1)
  show "map fst (propsOf s' input) = map fst (propsOf s input)" by (rule le(2))
  show "\<exists>a. getProp s' input t = JRef a \<and> propsOf s' a = [(''path'', JStr p), (''type'', JStr t)]"
    if "getProp s input t = JStr p" using that by (rule le(3))
  show "\<exists>a. getProp s' input t = JRef a \<and> propsOf s' a = [(''thunk'', JRef g), (''type'', JStr t)]"
    if "getProp s input t = JRef g" "callable (s ! g)" using that by (rule le(4))
  show "getProp s' input t = JRef b" if "getProp s input t = JRef b" "\<not> callable (s ! b)"
    using that by (rule le(5))
  show "propsOf s' b = AList.update ''type'' (JStr t) (propsOf s b)"
    if "getProp s input t = JRef b" "\<not> callable (s ! b)"
      "\<forall>t'. getProp s input t' = JRef b \<longrightarrow> t' = t"
    using that by (rule le(6))
qed

lemma initial_entries:
  assumes wf: "wellFormedInput s input" and run: "formatRoutes T None input False s = Inr (r, s')"
  shows "r = length s"
    and "distinct (map fst (propsOf s' (length s)))"
    and "fst ` set (propsOf s' (length s))
           = insert ''NOT_FOUND'' (fst ` set (propsOf s input) \<union> set (maintenanceTypes T))"
    and "getProp s input t = JStr p \<Longrightarrow> t \<notin> set (maintenanceTypes T) \<or> p \<noteq> [] \<Longrightarrow>
          \<exists>a. getProp s' (length s) t = JRef a
             \<and> propsOf s' a = [(''path'', JStr p), (''type'', JStr t)]"
    and "getProp s input t = JRef g \<Longrightarrow> callable (s ! g) \<Longrightarrow>
          \<exists>a. getProp s' (length s) t = JRef a
             \<and> propsOf s' a = [(''thunk'', JRef g), (''type'', JStr t)]"
    and "getProp s input t = JRef b \<Longrightarrow> \<not> callable (s ! b) \<Longrightarrow> getProp s' (length s) t = JRef b"
    and "distinct (maintenanceTypes T) \<Longrightarrow> kp \<in> set (maintenanceRoutes T) \<Longrightarrow>
          \<not> truthy (getProp s input (fst kp)) \<Longrightarrow>
          \<exists>a. length s < a \<and> getProp s' (length s) (fst kp) = JRef a
             \<and> propsOf s' a = snd kp @ [(''type'', JStr (fst kp))]"
proof -
  let ?r = "length s"
  from initialRoutes_facts[OF wf, of T] obtain s7 rest where
    run7: "initialRoutes T input s = (?r, s7)"
    and inv: "initialInv s input s7"
    and first0: "map fst (propsOf s7 ?r) = ''NOT_FOUND'' # rest"
    and keyset: "fst ` set (propsOf s7 ?r)
           = insert ''NOT_FOUND'' (fst ` set (propsOf s input) \<union> set (maintenanceTypes T))"
    and user: "\<forall>K\<in>fst ` set (propsOf s input).
            K \<notin> set (maintenanceTypes T) \<or> truthy (getProp s input K)
            \<longrightarrow> getProp s7 ?r K = getProp s input K"
    and nf: "''NOT_FOUND'' \<notin> fst ` set (propsOf s input) \<and> ''NOT_FOUND'' \<notin> set (maintenanceTypes T)
            \<longrightarrow> getProp s7 ?r ''NOT_FOUND'' = JRef (Suc ?r)
              \<and> s7 ! Suc ?r = \<lparr>callable = False, props = [(''path'', JStr ''/not-found'')]\<rparr>"
    by (elim exE conjE)
  have r: "?r < length s7" and d: "distinct (map fst (propsOf s7 ?r))"
    using inv by (simp_all add: initialInv_def)
  have v: "\<forall>t\<in>fst ` set (propsOf s7 ?r). routeValue s7 ?r (getProp s7 ?r t)"
    using initialInv_routeValue[OF inv wf] by blast
  note fr = formatRoutes_initial_run[OF run7 run]
  note le = loop_entries[OF r d v fr[THEN conjunct2]]
  have kept: "getProp s7 ?r K = getProp s input K"
    if "getProp s input K \<noteq> JUndefined" "K \<notin> set (maintenanceTypes T) \<or> truthy (getProp s input K)"
    for K
  proof -
    have "K \<in> fst ` set (propsOf s input)" using that(1) by (rule getProp_in_keys)
    with user that(2) show ?thesis by blast
  qed
  show "r = ?r" using fr by (rule conjunct1)
  show "distinct (map fst (propsOf s' ?r))" using d unfolding le(2) .
  have "set (map fst (propsOf s' ?r)) = set (map fst (propsOf s7 ?r))" unfolding le(2) ..
  then show "fst ` set (propsOf s' ?r)
           = insert ''NOT_FOUND'' (fst ` set (propsOf s input) \<union> set (maintenanceTypes T))"
    using keyset by simp
  show "\<exists>a. getProp s' ?r t = JRef a \<and> propsOf s' a = [(''path'', JStr p), (''type'', JStr t)]"
    if g: "getProp s input t = JStr p" and c: "t \<notin> set (maintenanceTypes T) \<or> p \<noteq> []"
  proof -
    have "t \<notin> set (maintenanceTypes T) \<or> truthy (getProp s input t)"
      using c g by (auto simp: truthy_def)
    then have "getProp s7 ?r t = getProp s input t" using g by (intro kept) simp_all
    then have "getProp s7 ?r t = JStr p" using g by simp
    then show ?thesis by (rule le(3))
  qed
  have ref7: "getProp s7 ?r t = JRef a \<and> a < length s \<and> s7 ! a = s ! a"
    if g: "getProp s input t = JRef a" for t a
  proof -
    have "t \<notin> set (maintenanceTypes T) \<or> truthy (getProp s input t)"
      using g by (simp add: truthy_def)
    then have "getProp s7 ?r t = getProp s input t" using g by (intro kept) simp_all
    then have 1: "getProp s7 ?r t = JRef a" using g by simp
    have 2: "a < length s" using wellFormedInput_ref[OF wf g] by simp
    have 3: "s7 ! a = s ! a" using inv 2 by (rule initialInv_old)
    show ?thesis using 1 2 3 by (intro conjI)
  qed
  show "\<exists>a. getProp s' ?r t = JRef a \<and> propsOf s' a = [(''thunk'', JRef g), (''type'', JStr t)]"
    if g: "getProp s input t = JRef g" and c: "callable (s ! g)"
  proof -
    note x = ref7[OF g]
    have "callable (s7 ! g)" using c x by simp
    with x[THEN conjunct1] show ?thesis by (rule le(4))
  qed
  show "getProp s' ?r t = JRef b" if g: "getProp s input t = JRef b" and c: "\<not> callable (s ! b)"
  proof -
    note x = ref7[OF g]
    have "\<not> callable (s7 ! b)" using c x by simp
    with x[THEN conjunct1] show ?thesis by (rule le(5))
  qed
  show "\<exists>a. length s < a \<and> getProp s' ?r (fst kp) = JRef a
             \<and> propsOf s' a = snd kp @ [(''type'', JStr (fst kp))]"
    if dm: "distinct (maintenanceTypes T)" and m: "kp \<in> set (maintenanceRoutes T)"
      and f: "\<not> truthy (getProp s input (fst kp))"
  proof -
    from initialRoutes_defaults[OF wf dm run7 m f] obtain b where
      b: "length s < b \<and> b < length s7 \<and> getProp s7 ?r (fst kp) = JRef b
          \<and> s7 ! b = \<lparr>callable = False, props = snd kp\<rparr>" ..
    note lb = b[THEN conjunct1]
    note b7 = b[THEN conjunct2, THEN conjunct1]
    note g7 = b[THEN conjunct2, THEN conjunct2, THEN conjunct1]
    note c7 = b[THEN conjunct2, THEN conjunct2, THEN conjunct2]
    have nc: "\<not> callable (s7 ! b)" using c7 by simp
    have p7: "propsOf s7 b = snd kp" using c7 b7 by (simp add: propsOf_def)
    have uq: "\<forall>t'. getProp s7 ?r t' = JRef b \<longrightarrow> t' = fst kp"
    proof (intro allI impI)
      fix t' assume g': "getProp s7 ?r t' = JRef b"
      have "fst kp = t'" using inv wf _ g7 g' nc by (rule initialInv_unique) (simp add: lb)
      then show "t' = fst kp" by simp
    qed
    have 1: "getProp s' ?r (fst kp) = JRef b" using g7 nc by (rule le(5))
    have "propsOf s' b = AList.update ''type'' (JStr (fst kp)) (propsOf s7 b)"
      using g7 nc uq by (rule le(6))
    also have "\<dots> = snd kp @ [(''type'', JStr (fst kp))]"
      unfolding p7 using maintenanceRoutes_no_type[OF m] by (rule update_fresh)
    finally have 2: "propsOf s' b = snd kp @ [(''type'', JStr (fst kp))]" .
    show ?thesis by (intro exI[of _ b] conjI lb 1 2)
  qed
qed

lemma formatRoutes_returns:
  assumes wf: "wellFormedInput s input"
  shows "\<exists>s'. formatRoutes T None input ia s = Inr (if ia then input else length s, s')"
proof (cases ia)
  case True
  from build_add[OF wf, of T] obtain s' where "formatRoutes T None input True s = Inr (input, s')"
    by (elim exE conjE) (rule that)
  then show ?thesis using True by (intro exI[of _ s']) simp
next
  case False
  from build_initial[OF wf, of T] obtain s' where
    "formatRoutes T None input False s = Inr (length s, s')"
    by (elim exE conjE) (rule that)
  then show ?thesis using False by (intro exI[of _ s']) simp
qed

subsection \<open>Shorthand forms\<close>

lemma formatRoute_str:
  "formatRoute None (JStr p) type routes ia s
     = Inr (JRef (length s), s @ [\<lparr>callable = False, props = [(''path'', JStr p)]\<rparr>])"
  by (simp add: formatRoute_def alloc_def isFunction_def nth_append)

lemma formatRoute_fun:
  "isFunction s r \<Longrightarrow> formatRoute None r type routes ia s
     = Inr (JRef (length s), s @ [\<lparr>callable = False, props = [(''thunk'', r)]\<rparr>])"
  by (cases r) (simp_all add: formatRoute_def alloc_def isFunction_def)

lemma formatRoute_formatter_str:
  "formatRoute (Some f) (JStr p) type routes ia s
     = f (JRef (length s)) type routes ia (s @ [\<lparr>callable = False, props = [(''path'', JStr p)]\<rparr>])"
  by (simp add: formatRoute_def alloc_def)

lemma formatRoute_formatter_other:
  "\<forall>p. r \<noteq> JStr p \<Longrightarrow> formatRoute (Some f) r type routes ia s = f r type routes ia s"
  by (cases r) (simp_all add: formatRoute_def)

lemma shorthand_add:
  assumes wf: "wellFormedInput s input"
  shows "\<exists>s'. formatRoutes T None input True s = Inr (input, s')
      \<and> (\<forall>t p. getProp s input t = JStr p \<longrightarrow>
            (\<exists>a. getProp s' input t = JRef a
               \<and> propsOf s' a = [(''path'', JStr p), (''type'', JStr t)]))
      \<and> (\<forall>t g. getProp s input t = JRef g \<and> callable (s ! g) \<longrightarrow>
            (\<exists>a. getProp s' input t = JRef a
               \<and> propsOf s' a = [(''thunk'', JRef g), (''type'', JStr t)]))"
proof -
  have r: "input < length s" and d: "distinct (map fst (propsOf s input))"
    using wf by (simp_all add: wellFormedInput_def)
  have v: "\<forall>t\<in>fst ` set (propsOf s input). routeValue s input (getProp s input t)"
    using wellFormedInput_value[OF wf] by blast
  from formatAll_keys[OF r d v, of True] obtain s' where
    A: "formatAll None input True (ownKeys (propsOf s input)) s = Inr s'"
    and B: "length s \<le> length s'"
    and C: "map fst (propsOf s' input) = map fst (propsOf s input)"
    and D: "\<forall>t p. getProp s input t = JStr p \<longrightarrow>
            (\<exists>a<length s'. getProp s' input t = JRef a
              \<and> s' ! a = \<lparr>callable = False, props = [(''path'', JStr p), (''type'', JStr t)]\<rparr>)"
    and E: "\<forall>t a. getProp s input t = JRef a \<and> callable (s ! a) \<longrightarrow>
            (\<exists>a'<length s'. getProp s' input t = JRef a'
              \<and> s' ! a' = \<lparr>callable = False, props = [(''thunk'', JRef a), (''type'', JStr t)]\<rparr>)"
    and F: "\<forall>t a. getProp s input t = JRef a \<and> \<not> callable (s ! a) \<longrightarrow>
            getProp s' input t = JRef a
            \<and> ((\<forall>t'. getProp s input t' = JRef a \<longrightarrow> t' = t) \<longrightarrow>
                s' ! a = (s ! a)\<lparr>props := AList.update ''type'' (JStr t) (props (s ! a))\<rparr>)"
    by (elim exE conjE)
  have run: "formatRoutes T None input True s = Inr (input, s')"
    using A by (simp add: formatRoutes_add)
  have S: "\<forall>t p. getProp s input t = JStr p \<longrightarrow>
            (\<exists>a. getProp s' input t = JRef a \<and> propsOf s' a = [(''path'', JStr p), (''type'', JStr t)])"
  proof (intro allI impI)
    fix t p assume "getProp s input t = JStr p"
    with D obtain a where "a < length s'" "getProp s' input t = JRef a"
        "s' ! a = \<lparr>callable = False, props = [(''path'', JStr p), (''type'', JStr t)]\<rparr>" by blast
    then show "\<exists>a. getProp s' input t = JRef a \<and> propsOf s' a = [(''path'', JStr p), (''type'', JStr t)]"
      by (intro exI[of _ a]) (simp add: propsOf_def)
  qed
  have G: "\<forall>t g. getProp s input t = JRef g \<and> callable (s ! g) \<longrightarrow>
            (\<exists>a. getProp s' input t = JRef a \<and> propsOf s' a = [(''thunk'', JRef g), (''type'', JStr t)])"
  proof (intro allI impI)
    fix t g assume "getProp s input t = JRef g \<and> callable (s ! g)"
    with E obtain a where "a < length s'" "getProp s' input t = JRef a"
        "s' ! a = \<lparr>callable = False, props = [(''thunk'', JRef g), (''type'', JStr t)]\<rparr>" by blast
    then show "\<exists>a. getProp s' input t = JRef a \<and> propsOf s' a = [(''thunk'', JRef g), (''type'', JStr t)]"
      by (intro exI[of _ a]) (simp add: propsOf_def)
  qed
  show ?thesis by (intro exI[of _ s'] conjI run S G)
qed

subsection \<open>The examples\<close>

lemmas eval_defs = formatRoutes_def initialRoutes_def setDefault_def orDefault_def alloc_def
  objectAssign_def ownKeys_def isArrayIndex_def isDigit_def decimal_def formatStep_def
  formatRoute_def setType_def setProp_def getProp_def propsOf_def truthy_def isFunction_def
  registry_def typeField_def Let_def

lemma exampleStore_wf: "wellFormedInput exampleStore 5"
  by (simp add: wellFormedInput_def routeValue_def propsOf_def)

lemma exampleStore_length: "length exampleStore = 8"
  by simp

lemma exampleBuiltins_distinct: "distinct (maintenanceTypes exampleBuiltins)"
  by (simp add: maintenanceTypes_def)

lemma exampleStore_entries:
  "getProp exampleStore 5 ''HOME'' = JStr ''/''"
  "getProp exampleStore 5 ''LOAD'' = JRef 7 \<and> callable (exampleStore ! 7)"
  "getProp exampleStore 5 ''POST'' = JRef 6 \<and> \<not> callable (exampleStore ! 6)"
  "\<forall>t'. getProp exampleStore 5 t' = JRef 6 \<longrightarrow> t' = ''POST''"
  "propsOf exampleStore 6 = [(''path'', JStr ''/post/:id'')]"
  by (auto simp: getProp_def propsOf_def split: if_splits)

subsection \<open>The claims about the routes map\<close>




text \<open>
  Claim C3, as amended.  The initial build (no formatter) of a well-formed routes map yields
  a registry whose keys are, in iteration order: the keys that are array indices, then
  \<open>NOT_FOUND\<close>, then the remaining keys, none of which is an array index.  So \<open>NOT_FOUND\<close>
  precedes every route whose type is not an array index.  When the input has no
  \<open>NOT_FOUND\<close> (and no maintenance type is called so), the record is
  \<open>{path: '/not-found', type: 'NOT_FOUND'}\<close>.
\<close>

theorem formatRoutes_NOT_FOUND_order:
  assumes "wellFormedInput s input"
  shows "\<exists>s' idx rest. formatRoutes T None input False s = Inr (length s, s')
      \<and> map fst (registry s' (length s)) = idx @ ''NOT_FOUND'' # rest
      \<and> (\<forall>k\<in>set idx. isArrayIndex k) \<and> (\<forall>k\<in>set rest. \<not> isArrayIndex k)
      \<and> (''NOT_FOUND'' \<notin> fst ` set (propsOf s input) \<and> ''NOT_FOUND'' \<notin> set (maintenanceTypes T)
           \<longrightarrow> (\<exists>a. getProp s' (length s) ''NOT_FOUND'' = JRef a
                  \<and> propsOf s' a = [(''path'', JStr ''/not-found''), (''type'', JStr ''NOT_FOUND'')]))"
proof -
  let ?r = "length s"
  from build_initial[OF assms(1), of T] obtain s7 s' where big: "initialRoutes T input s = (length s, s7)
      \<and> initialInv s input s7
      \<and> (\<exists>rest. map fst (propsOf s7 (length s)) = ''NOT_FOUND'' # rest)
      \<and> fst ` set (propsOf s7 (length s))
           = insert ''NOT_FOUND'' (fst ` set (propsOf s input) \<union> set (maintenanceTypes T))
      \<and> (\<forall>K\<in>fst ` set (propsOf s input).
            K \<notin> set (maintenanceTypes T) \<or> truthy (getProp s input K)
            \<longrightarrow> getProp s7 (length s) K = getProp s input K)
      \<and> (''NOT_FOUND'' \<notin> fst ` set (propsOf s input) \<and> ''NOT_FOUND'' \<notin> set (maintenanceTypes T)
            \<longrightarrow> getProp s7 (length s) ''NOT_FOUND'' = JRef (Suc (length s))
              \<and> s7 ! Suc (length s) = \<lparr>callable = False, props = [(''path'', JStr ''/not-found'')]\<rparr>)
      \<and> formatRoutes T None input False s = Inr (length s, s')
      \<and> map fst (propsOf s' (length s)) = map fst (propsOf s7 (length s))
      \<and> (\<forall>t\<in>fst ` set (propsOf s7 (length s)).
            (\<forall>a t'. getProp s7 (length s) t = JRef a \<and> \<not> callable (s7 ! a)
                     \<and> getProp s7 (length s) t' = JRef a \<longrightarrow> t' = t)
            \<longrightarrow> typeField s' (getProp s' (length s) t) = JStr t)
      \<and> (\<forall>t a. getProp s7 (length s) t = JRef a \<and> \<not> callable (s7 ! a)
               \<and> (\<forall>t'. getProp s7 (length s) t' = JRef a \<longrightarrow> t' = t)
            \<longrightarrow> propsOf s' a = AList.update ''type'' (JStr t) (propsOf s7 a))
      \<and> (\<forall>t a. getProp s7 (length s) t = JRef a \<and> \<not> callable (s7 ! a)
            \<longrightarrow> getProp s' (length s) t = JRef a)"
    by (elim exE)
  note run7 = big[THEN conjunct1]
  note inv = big[THEN conjunct2, THEN conjunct1]
  note first = big[THEN conjunct2, THEN conjunct2, THEN conjunct1]
  note keyset = big[THEN conjunct2, THEN conjunct2, THEN conjunct2, THEN conjunct1]
  note user = big[THEN conjunct2, THEN conjunct2, THEN conjunct2, THEN conjunct2, THEN conjunct1]
  note nf = big[THEN conjunct2, THEN conjunct2, THEN conjunct2, THEN conjunct2, THEN conjunct2, THEN conjunct1]
  note run = big[THEN conjunct2, THEN conjunct2, THEN conjunct2, THEN conjunct2, THEN conjunct2, THEN conjunct2, THEN conjunct1]
  note M = big[THEN conjunct2, THEN conjunct2, THEN conjunct2, THEN conjunct2, THEN conjunct2, THEN conjunct2, THEN conjunct2, THEN conjunct1]
  note TF = big[THEN conjunct2, THEN conjunct2, THEN conjunct2, THEN conjunct2, THEN conjunct2, THEN conjunct2, THEN conjunct2, THEN conjunct2, THEN conjunct1]
  note U = big[THEN conjunct2, THEN conjunct2, THEN conjunct2, THEN conjunct2, THEN conjunct2, THEN conjunct2, THEN conjunct2, THEN conjunct2, THEN conjunct2, THEN conjunct1]
  note O = big[THEN conjunct2, THEN conjunct2, THEN conjunct2, THEN conjunct2, THEN conjunct2, THEN conjunct2, THEN conjunct2, THEN conjunct2, THEN conjunct2, THEN conjunct2]
  from first obtain rest where first0: "map fst (propsOf s7 ?r) = ''NOT_FOUND'' # rest" ..
  let ?idx = "sort_key decimal (filter isArrayIndex rest)"
  let ?rest = "filter (\<lambda>k. \<not> isArrayIndex k) rest"
  have "map fst (propsOf s' ?r) = ''NOT_FOUND'' # rest" using M first0 by simp
  then have "ownKeys (propsOf s' ?r) = ?idx @ ''NOT_FOUND'' # ?rest"
    using NOT_FOUND_not_index by (rule ownKeys_first)
  then have keys: "map fst (registry s' ?r) = ?idx @ ''NOT_FOUND'' # ?rest"
    by (simp add: registry_keys)
  have i1: "\<forall>k\<in>set ?idx. isArrayIndex k" by simp
  have i2: "\<forall>k\<in>set ?rest. \<not> isArrayIndex k" by simp
  have dflt: "\<exists>a. getProp s' ?r ''NOT_FOUND'' = JRef a
                  \<and> propsOf s' a = [(''path'', JStr ''/not-found''), (''type'', JStr ''NOT_FOUND'')]"
    if h: "''NOT_FOUND'' \<notin> fst ` set (propsOf s input) \<and> ''NOT_FOUND'' \<notin> set (maintenanceTypes T)"
  proof -
    have g: "getProp s7 ?r ''NOT_FOUND'' = JRef (Suc ?r)"
      using nf h by (elim impE conjE) simp_all
    have c: "s7 ! Suc ?r = \<lparr>callable = False, props = [(''path'', JStr ''/not-found'')]\<rparr>"
      using nf h by (elim impE conjE) simp_all
    have nc: "\<not> callable (s7 ! Suc ?r)" using c by simp
    have uq: "\<forall>t'. getProp s7 ?r t' = JRef (Suc ?r) \<longrightarrow> t' = ''NOT_FOUND''"
    proof (intro allI impI)
      fix t' assume g': "getProp s7 ?r t' = JRef (Suc ?r)"
      have "''NOT_FOUND'' = t'"
        using inv assms _ g g' nc by (rule initialInv_unique) simp
      then show "t' = ''NOT_FOUND''" by simp
    qed
    have "''NOT_FOUND'' \<in> fst ` set (propsOf s7 ?r)"
      using g by (intro getProp_in_keys) simp
    then have "routeValue s7 ?r (getProp s7 ?r ''NOT_FOUND'')"
      using inv assms by (intro initialInv_routeValue)
    then have l: "Suc ?r < length s7" using g by (simp add: routeValue_def)
    have p7: "propsOf s7 (Suc ?r) = [(''path'', JStr ''/not-found'')]"
      using c l by (simp add: propsOf_def)
    have "getProp s7 ?r ''NOT_FOUND'' = JRef (Suc ?r) \<and> \<not> callable (s7 ! Suc ?r)
               \<and> (\<forall>t'. getProp s7 ?r t' = JRef (Suc ?r) \<longrightarrow> t' = ''NOT_FOUND'')"
      using g nc uq by (intro conjI)
    with U have "propsOf s' (Suc ?r) = AList.update ''type'' (JStr ''NOT_FOUND'') (propsOf s7 (Suc ?r))"
      by (elim allE impE) simp_all
    then have p: "propsOf s' (Suc ?r) = [(''path'', JStr ''/not-found''), (''type'', JStr ''NOT_FOUND'')]"
      using p7 by simp
    have "getProp s7 ?r ''NOT_FOUND'' = JRef (Suc ?r) \<and> \<not> callable (s7 ! Suc ?r)"
      using g nc by (intro conjI)
    with O have g2: "getProp s' ?r ''NOT_FOUND'' = JRef (Suc ?r)" by (elim allE impE) simp_all
    show ?thesis by (intro exI[of _ "Suc ?r"] conjI g2 p)
  qed
  have dflt': "''NOT_FOUND'' \<notin> fst ` set (propsOf s input) \<and> ''NOT_FOUND'' \<notin> set (maintenanceTypes T)
           \<longrightarrow> (\<exists>a. getProp s' ?r ''NOT_FOUND'' = JRef a
                  \<and> propsOf s' a = [(''path'', JStr ''/not-found''), (''type'', JStr ''NOT_FOUND'')])"
    by (rule impI) (rule dflt)
  show ?thesis
    by (intro exI[of _ s'] exI[of _ ?idx] exI[of _ ?rest] conjI run keys i1 i2 dflt')
qed

text \<open>
  For the example map, which has no \<open>NOT_FOUND\<close>, the registry has the key and the default
  record.
\<close>

theorem formatRoutes_NOT_FOUND_order_witness:
  "\<exists>s' idx rest. formatRoutes exampleBuiltins None 5 False exampleStore = Inr (8, s')
      \<and> map fst (registry s' 8) = idx @ ''NOT_FOUND'' # rest
      \<and> (\<exists>a. getProp s' 8 ''NOT_FOUND'' = JRef a
             \<and> propsOf s' a = [(''path'', JStr ''/not-found''), (''type'', JStr ''NOT_FOUND'')])"
proof -
  note t = formatRoutes_NOT_FOUND_order[OF exampleStore_wf, of exampleBuiltins, unfolded exampleStore_length]
  from t obtain s' idx rest where big:
    "formatRoutes exampleBuiltins None 5 False exampleStore = Inr (8, s')
      \<and> map fst (registry s' 8) = idx @ ''NOT_FOUND'' # rest
      \<and> (\<forall>k\<in>set idx. isArrayIndex k) \<and> (\<forall>k\<in>set rest. \<not> isArrayIndex k)
      \<and> (''NOT_FOUND'' \<notin> fst ` set (propsOf exampleStore 5)
           \<and> ''NOT_FOUND'' \<notin> set (maintenanceTypes exampleBuiltins)
           \<longrightarrow> (\<exists>a. getProp s' 8 ''NOT_FOUND'' = JRef a
                  \<and> propsOf s' a = [(''path'', JStr ''/not-found''), (''type'', JStr ''NOT_FOUND'')]))"
    by (elim exE)
  note run = big[THEN conjunct1]
  note keys = big[THEN conjunct2, THEN conjunct1]
  note dflt = big[THEN conjunct2, THEN conjunct2, THEN conjunct2, THEN conjunct2]
  have "''NOT_FOUND'' \<notin> fst ` set (propsOf exampleStore 5)
           \<and> ''NOT_FOUND'' \<notin> set (maintenanceTypes exampleBuiltins)"
    by (simp add: propsOf_def maintenanceTypes_def)
  with dflt have nf: "\<exists>a. getProp s' 8 ''NOT_FOUND'' = JRef a
             \<and> propsOf s' a = [(''path'', JStr ''/not-found''), (''type'', JStr ''NOT_FOUND'')]"
    by (rule mp)
  show ?thesis by (intro exI[of _ s'] exI[of _ idx] exI[of _ rest] conjI run keys nf)
qed

text \<open>
  Claim C3 as stated fails: in the initial build of \<open>{'0': '/:param?'}\<close> the catch-all route
  \<open>0\<close> comes before \<open>NOT_FOUND\<close> in the iteration order of the registry, since an object
  lists its array-index keys first.
\<close>

theorem formatRoutes_index_key_first:
  "case formatRoutes exampleBuiltins None 5 False
       (exampleThunks @ [\<lparr>callable = False, props = [(''0'', JStr ''/:param?'')]\<rparr>]) of
     Inl e \<Rightarrow> False
   | Inr (r, s') \<Rightarrow> take 2 (map fst (registry s' r)) = [''0'', ''NOT_FOUND'']"
  by code_simp



text \<open>
  Claim C7, as amended.  Without a formatter, \<open>formatRoute\<close> turns a string \<open>p\<close> into a new
  record \<open>{path: p}\<close> and a function \<open>f\<close> into a new record \<open>{thunk: f}\<close>, and in the map
  built from a well-formed input (add-routes mode) the entry of a string is
  \<open>{path: p, type: t}\<close> and the entry of a function is \<open>{thunk: f, type: t}\<close>.  With a
  formatter, a string is still turned into \<open>{path: p}\<close> before the formatter is called on
  it, but every other value, a function included, is handed to the formatter as it is, and
  the result of the formatter is the route.
\<close>

theorem formatRoute_shorthand:
  "formatRoute None (JStr p) type routes ia s
     = Inr (JRef (length s), s @ [\<lparr>callable = False, props = [(''path'', JStr p)]\<rparr>])
   \<and> (isFunction s r \<longrightarrow> formatRoute None r type routes ia s
         = Inr (JRef (length s), s @ [\<lparr>callable = False, props = [(''thunk'', r)]\<rparr>]))
   \<and> formatRoute (Some f) (JStr p) type routes ia s
       = f (JRef (length s)) type routes ia (s @ [\<lparr>callable = False, props = [(''path'', JStr p)]\<rparr>])
   \<and> ((\<forall>q. r \<noteq> JStr q) \<longrightarrow> formatRoute (Some f) r type routes ia s = f r type routes ia s)
   \<and> (wellFormedInput s input \<longrightarrow>
        (\<exists>s'. formatRoutes T None input True s = Inr (input, s')
          \<and> (\<forall>t p. getProp s input t = JStr p \<longrightarrow>
                (\<exists>a. getProp s' input t = JRef a
                   \<and> propsOf s' a = [(''path'', JStr p), (''type'', JStr t)]))
          \<and> (\<forall>t g. getProp s input t = JRef g \<and> callable (s ! g) \<longrightarrow>
                (\<exists>a. getProp s' input t = JRef a
                   \<and> propsOf s' a = [(''thunk'', JRef g), (''type'', JStr t)]))))"
  by (intro conjI impI formatRoute_str formatRoute_formatter_str)
     (erule formatRoute_fun, erule formatRoute_formatter_other, erule shorthand_add)

text \<open>
  The four cases of \<open>formatRoute\<close> on the example store, and the add-routes build of the
  example map.
\<close>

theorem formatRoute_shorthand_witness:
  "formatRoute None (JStr ''/'') ''LOAD'' 5 True exampleStore
     = Inr (JRef 8, exampleStore @ [\<lparr>callable = False, props = [(''path'', JStr ''/'')]\<rparr>])
   \<and> formatRoute None (JRef 7) ''LOAD'' 5 True exampleStore
     = Inr (JRef 8, exampleStore @ [\<lparr>callable = False, props = [(''thunk'', JRef 7)]\<rparr>])
   \<and> formatRoute (Some (\<lambda>rt t r ia s. Inr (rt, s))) (JRef 7) ''LOAD'' 5 True exampleStore
     = Inr (JRef 7, exampleStore)
   \<and> (\<exists>s'. formatRoutes exampleBuiltins None 5 True exampleStore = Inr (5, s')
        \<and> (\<exists>a. getProp s' 5 ''HOME'' = JRef a
               \<and> propsOf s' a = [(''path'', JStr ''/''), (''type'', JStr ''HOME'')])
        \<and> (\<exists>a. getProp s' 5 ''LOAD'' = JRef a
               \<and> propsOf s' a = [(''thunk'', JRef 7), (''type'', JStr ''LOAD'')]))"
proof -
  note t = formatRoute_shorthand[of "''/''" "''LOAD''" 5 True exampleStore "JRef 7" "\<lambda>rt t r ia s. Inr (rt, s)"
      5 exampleBuiltins, unfolded exampleStore_length]
  have 1: "formatRoute None (JStr ''/'') ''LOAD'' 5 True exampleStore
     = Inr (JRef 8, exampleStore @ [\<lparr>callable = False, props = [(''path'', JStr ''/'')]\<rparr>])"
    using t by (rule conjunct1)
  have f: "isFunction exampleStore (JRef 7)" by (simp add: isFunction_def)
  have 2: "formatRoute None (JRef 7) ''LOAD'' 5 True exampleStore
     = Inr (JRef 8, exampleStore @ [\<lparr>callable = False, props = [(''thunk'', JRef 7)]\<rparr>])"
    using t[THEN conjunct2, THEN conjunct1] f by (rule mp)
  have n: "\<forall>q. JRef 7 \<noteq> JStr q" by simp
  have 3: "formatRoute (Some (\<lambda>rt t r ia s. Inr (rt, s))) (JRef 7) ''LOAD'' 5 True exampleStore
     = Inr (JRef 7, exampleStore)"
    using t[THEN conjunct2, THEN conjunct2, THEN conjunct2, THEN conjunct1] n by (rule mp)
  from t[THEN conjunct2, THEN conjunct2, THEN conjunct2, THEN conjunct2] exampleStore_wf
  have "\<exists>s'. formatRoutes exampleBuiltins None 5 True exampleStore = Inr (5, s')
          \<and> (\<forall>t p. getProp exampleStore 5 t = JStr p \<longrightarrow>
                (\<exists>a. getProp s' 5 t = JRef a
                   \<and> propsOf s' a = [(''path'', JStr p), (''type'', JStr t)]))
          \<and> (\<forall>t g. getProp exampleStore 5 t = JRef g \<and> callable (exampleStore ! g) \<longrightarrow>
                (\<exists>a. getProp s' 5 t = JRef a
                   \<and> propsOf s' a = [(''thunk'', JRef g), (''type'', JStr t)]))"
    by (rule mp)
  then obtain s' where big: "formatRoutes exampleBuiltins None 5 True exampleStore = Inr (5, s')
          \<and> (\<forall>t p. getProp exampleStore 5 t = JStr p \<longrightarrow>
                (\<exists>a. getProp s' 5 t = JRef a
                   \<and> propsOf s' a = [(''path'', JStr p), (''type'', JStr t)]))
          \<and> (\<forall>t g. getProp exampleStore 5 t = JRef g \<and> callable (exampleStore ! g) \<longrightarrow>
                (\<exists>a. getProp s' 5 t = JRef a
                   \<and> propsOf s' a = [(''thunk'', JRef g), (''type'', JStr t)]))" ..
  note run = big[THEN conjunct1]
  have gh: "getProp exampleStore 5 ''HOME'' = JStr ''/''" by (simp add: getProp_def propsOf_def)
  have gl: "getProp exampleStore 5 ''LOAD'' = JRef 7 \<and> callable (exampleStore ! 7)"
    by (simp add: getProp_def propsOf_def)
  have h: "\<exists>a. getProp s' 5 ''HOME'' = JRef a
               \<and> propsOf s' a = [(''path'', JStr ''/''), (''type'', JStr ''HOME'')]"
    using big[THEN conjunct2, THEN conjunct1, THEN spec, THEN spec] gh by (rule mp)
  have l: "\<exists>a. getProp s' 5 ''LOAD'' = JRef a
               \<and> propsOf s' a = [(''thunk'', JRef 7), (''type'', JStr ''LOAD'')]"
    using big[THEN conjunct2, THEN conjunct2, THEN spec, THEN spec] gl by (rule mp)
  have 4: "\<exists>s'. formatRoutes exampleBuiltins None 5 True exampleStore = Inr (5, s')
        \<and> (\<exists>a. getProp s' 5 ''HOME'' = JRef a
               \<and> propsOf s' a = [(''path'', JStr ''/''), (''type'', JStr ''HOME'')])
        \<and> (\<exists>a. getProp s' 5 ''LOAD'' = JRef a
               \<and> propsOf s' a = [(''thunk'', JRef 7), (''type'', JStr ''LOAD'')])"
    by (intro exI[of _ s'] conjI run h l)
  show ?thesis by (intro conjI 1 2 3 4)
qed

text \<open>
  Claim C7 as stated fails when a formatter is given: with the formatter that returns its
  argument, the entry \<open>LOAD\<close> of \<open>{LOAD: f}\<close> stays the function \<open>f\<close> itself (which receives
  the property \<open>type\<close>); no record \<open>{thunk: f}\<close> is made.
\<close>

theorem formatRoutes_formatter_keeps_function:
  "formatRoutes exampleBuiltins (Some (\<lambda>rt t r ia s. Inr (rt, s))) 5 True
     (exampleThunks @ [\<lparr>callable = False, props = [(''LOAD'', JRef 0)]\<rparr>])
   = Inr (5, [\<lparr>callable = True, props = [(''type'', JStr ''LOAD'')]\<rparr>,
              \<lparr>callable = True, props = []\<rparr>, \<lparr>callable = True, props = []\<rparr>,
              \<lparr>callable = True, props = []\<rparr>, \<lparr>callable = True, props = []\<rparr>,
              \<lparr>callable = False, props = [(''LOAD'', JRef 0)]\<rparr>])
   \<and> isFunction exampleThunks (JRef 0)"
  by (simp add: eval_defs)




end
